theory Spec2Isabelle
  imports Main "HOL-Library.Char_ord" "HOL-Library.List_Lexorder" "HOL-Library.Multiset"
begin

section \<open>The file-history tracker of leafwiki (internal/search/history.go)\<close>

text \<open>
  A shallow embedding of \<^verbatim>\<open>CaptureFileHistory\<close>, \<^verbatim>\<open>latestFileSnapshots\<close>,
  \<^verbatim>\<open>insertHistoryEntry\<close>, \<^verbatim>\<open>GetHistoryForPath\<close>, \<^verbatim>\<open>scanMarkdownFiles\<close>,
  \<^verbatim>\<open>seedHistoryPaths\<close>, \<^verbatim>\<open>parseSQLiteTimestamp\<close> and \<^verbatim>\<open>normalizeHistoryPath\<close>.
  Go strings are byte strings (\<open>string\<close>, a list of 8-bit characters); paths use the
  Unix separator, so \<^verbatim>\<open>filepath.ToSlash\<close> changes nothing.
\<close>

subsection \<open>Library functions of \<^verbatim>\<open>path/filepath\<close> and \<^verbatim>\<open>strings\<close>\<close>

definition Separator :: char where
  "Separator = CHR ''/''"

text \<open>\<^verbatim>\<open>filepath.Ext\<close>: the suffix from the last dot of the last path element, scanning
  from the end and stopping at a separator.\<close>

fun Ext_scan :: "string \<Rightarrow> string \<Rightarrow> string" where
  "Ext_scan [] suffix = []"
| "Ext_scan (c # front) suffix =
     (if c = Separator then []
      else if c = CHR ''.'' then c # suffix
      else Ext_scan front (c # suffix))"

definition filepath_Ext :: "string \<Rightarrow> string" where
  "filepath_Ext p = Ext_scan (rev p) []"

text \<open>\<^verbatim>\<open>filepath.Base\<close>: the last element of the path, after trailing separators are
  stripped; \<open>.\<close> for the empty path and \<open>/\<close> for a path of separators only.\<close>

definition filepath_Base :: "string \<Rightarrow> string" where
  "filepath_Base p =
     (if p = [] then ''.''
      else let stripped = dropWhile (\<lambda>c. c = Separator) (rev p);
               elem = rev (takeWhile (\<lambda>c. c \<noteq> Separator) stripped)
           in if elem = [] then [Separator] else elem)"

definition filepath_ToSlash :: "string \<Rightarrow> string" where
  "filepath_ToSlash p = p"

text \<open>Path elements: the pieces between separators (an empty piece for two separators in a
  row or a separator at either end).\<close>

fun elements_from :: "string \<Rightarrow> string \<Rightarrow> string list" where
  "elements_from cur [] = [rev cur]"
| "elements_from cur (c # cs) =
     (if c = Separator then rev cur # elements_from [] cs else elements_from (c # cur) cs)"

text \<open>\<^verbatim>\<open>filepath.Clean\<close> works on a stack of kept elements (newest first): empty and
  \<open>.\<close> elements vanish, \<open>..\<close> removes the element before it when there is one to remove,
  is kept in front of a relative path, and vanishes at the root.\<close>

fun clean_elements :: "bool \<Rightarrow> string list \<Rightarrow> string list \<Rightarrow> string list" where
  "clean_elements rooted kept [] = rev kept"
| "clean_elements rooted kept (e # es) =
     (if e = [] \<or> e = ''.'' then clean_elements rooted kept es
      else if e = ''..'' then
        (case kept of
           k # ks \<Rightarrow>
             if k \<noteq> ''..'' then clean_elements rooted ks es
             else if rooted then clean_elements rooted kept es
             else clean_elements rooted (e # kept) es
         | [] \<Rightarrow>
             if rooted then clean_elements rooted kept es
             else clean_elements rooted (e # kept) es)
      else clean_elements rooted (e # kept) es)"

fun join_elements :: "string list \<Rightarrow> string" where
  "join_elements [] = []"
| "join_elements [e] = e"
| "join_elements (e # es) = e @ Separator # join_elements es"

definition filepath_Clean :: "string \<Rightarrow> string" where
  "filepath_Clean p =
     (if p = [] then ''.''
      else let rooted = (hd p = Separator);
               out = (if rooted then [Separator] else [])
                     @ join_elements (clean_elements rooted [] (elements_from [] p))
           in if out = [] then ''.'' else out)"

text \<open>\<^verbatim>\<open>filepath.Join\<close> of two elements: the non-empty ones, joined by the separator and
  cleaned; the empty string when both are empty.\<close>

definition filepath_Join :: "string \<Rightarrow> string \<Rightarrow> string" where
  "filepath_Join a b =
     (if a \<noteq> [] then filepath_Clean (a @ Separator # b)
      else if b \<noteq> [] then filepath_Clean b
      else [])"

text \<open>\<^verbatim>\<open>strings.TrimSpace\<close> removes leading and trailing white space as Unicode defines it.
  On the bytes of a string that is: the six ASCII characters, and the UTF-8 encodings of
  U+0085, U+00A0, U+1680, U+2000 to U+200A, U+2028, U+2029, U+202F, U+205F and U+3000.\<close>

definition space_runes :: "string list" where
  "space_runes =
     [[CHR 0x09], [CHR 0x0A], [CHR 0x0B], [CHR 0x0C], [CHR 0x0D], [CHR 0x20],
      [CHR 0xC2, CHR 0x85], [CHR 0xC2, CHR 0xA0], [CHR 0xE1, CHR 0x9A, CHR 0x80],
      [CHR 0xE2, CHR 0x80, CHR 0x80], [CHR 0xE2, CHR 0x80, CHR 0x81],
      [CHR 0xE2, CHR 0x80, CHR 0x82], [CHR 0xE2, CHR 0x80, CHR 0x83],
      [CHR 0xE2, CHR 0x80, CHR 0x84], [CHR 0xE2, CHR 0x80, CHR 0x85],
      [CHR 0xE2, CHR 0x80, CHR 0x86], [CHR 0xE2, CHR 0x80, CHR 0x87],
      [CHR 0xE2, CHR 0x80, CHR 0x88], [CHR 0xE2, CHR 0x80, CHR 0x89],
      [CHR 0xE2, CHR 0x80, CHR 0x8A], [CHR 0xE2, CHR 0x80, CHR 0xA8],
      [CHR 0xE2, CHR 0x80, CHR 0xA9], [CHR 0xE2, CHR 0x80, CHR 0xAF],
      [CHR 0xE2, CHR 0x81, CHR 0x9F], [CHR 0xE3, CHR 0x80, CHR 0x80]]"

text \<open>The length of the white-space rune the string starts with, if it starts with one.\<close>

definition leading_space :: "string list \<Rightarrow> string \<Rightarrow> nat option" where
  "leading_space runes s =
     (case filter (\<lambda>r. take (length r) s = r) runes of
        [] \<Rightarrow> None
      | r # _ \<Rightarrow> Some (length r))"

function trim_left_space :: "string list \<Rightarrow> string \<Rightarrow> string" where
  "trim_left_space runes s =
     (case leading_space runes s of
        None \<Rightarrow> s
      | Some n \<Rightarrow> if n = 0 \<or> s = [] then s else trim_left_space runes (drop n s))"
  by pat_completeness auto
termination
  by (relation "measure (\<lambda>(runes, s). length s)") auto

definition strings_TrimSpace :: "string \<Rightarrow> string" where
  "strings_TrimSpace s =
     rev (trim_left_space (map rev space_runes) (rev (trim_left_space space_runes s)))"

text \<open>\<^verbatim>\<open>strings.TrimLeft(s, "/")\<close>.\<close>

definition strings_TrimLeft_slash :: "string \<Rightarrow> string" where
  "strings_TrimLeft_slash s = dropWhile (\<lambda>c. c = CHR ''/'') s"



subsection \<open>Data model\<close>

datatype FileHistoryStatus =
  FileStatusCreated | FileStatusModified | FileStatusDeleted | FileStatusMoved

record FileHistorySnapshot =
  Path :: string
  Hash :: string
  Content :: string
  Status :: FileHistoryStatus
  PreviousPath :: "string option"

text \<open>\<^verbatim>\<open>time.Time\<close> as the instant it denotes, in nanoseconds since the zero time
  (\<^verbatim>\<open>time.Time{}\<close>): \<^verbatim>\<open>Equal\<close> and \<^verbatim>\<open>After\<close> compare instants.\<close>

type_synonym Time = int

definition zero_Time :: Time where
  "zero_Time = 0"

text \<open>\<^verbatim>\<open>FileHistoryEntry\<close> has the fields of a snapshot, an id and the parsed time.\<close>

record FileHistoryEntry = FileHistorySnapshot +
  ID :: int
  RecordedAt :: Time

record fileRecord =
  fr_Hash :: string
  fr_Content :: string

text \<open>A row of the table \<^verbatim>\<open>file_history\<close>, with the columns the statements name
  (\<^verbatim>\<open>fh\<close> is the table's alias in the source's query). \<^verbatim>\<open>previous_path\<close> is nullable;
  \<^verbatim>\<open>recorded_at\<close> is stored as text.\<close>

record file_history =
  fh_id :: int
  fh_path :: string
  fh_hash :: string
  fh_content :: string
  fh_status :: FileHistoryStatus
  fh_previous_path :: "string option"
  fh_recorded_at :: string

datatype error = ErrConnDone | ErrNotExist | ErrIO

text \<open>Modelled from the spec: the declaration of \<^verbatim>\<open>SQLiteIndex\<close> is not among the
  sources. It holds the database handle (\<open>None\<close> for \<^verbatim>\<open>nil\<close>), an open database
  being the rows of \<^verbatim>\<open>file_history\<close> in insertion order. The mutex has no effect on one
  call at a time and is left out; an open database executes every statement.\<close>

record SQLiteIndex =
  db :: "file_history list option"

text \<open>Modelled from the spec: the table's schema is not among the sources. The store
  assigns \<open>id\<close>, a monotonic sequence number (one more than the largest id, 1 for the first
  row), and \<open>recorded_at\<close>, the reading of the store's clock; \<open>clock i\<close> is the text the
  store's clock gives the row that gets id \<open>i\<close>.\<close>

definition next_id :: "file_history list \<Rightarrow> int" where
  "next_id rows = (if rows = [] then 1 else Max (set (map fh_id rows)) + 1)"

definition insertHistoryEntry ::
  "(int \<Rightarrow> string) \<Rightarrow> file_history list \<Rightarrow> string \<Rightarrow> string \<Rightarrow> string \<Rightarrow>
   FileHistoryStatus \<Rightarrow> string option \<Rightarrow> file_history list" where
  "insertHistoryEntry clock rows path hash content status previousPath =
     rows @ [\<lparr>fh_id = next_id rows, fh_path = path, fh_hash = hash, fh_content = content,
              fh_status = status, fh_previous_path = previousPath,
              fh_recorded_at = clock (next_id rows)\<rparr>]"

subsection \<open>\<^verbatim>\<open>latestFileSnapshots\<close>\<close>

text \<open>The common table expression: \<^verbatim>\<open>SELECT MAX(id) AS id, path FROM file_history GROUP BY path\<close>.\<close>

definition latest_cte :: "file_history list \<Rightarrow> (int \<times> string) list" where
  "latest_cte rows =
     map (\<lambda>p. (Max (set (map fh_id (filter (\<lambda>r. fh_path r = p) rows))), p))
         (remdups (map fh_path rows))"

text \<open>The join \<^verbatim>\<open>file_history fh JOIN latest l ON fh.id = l.id\<close>.\<close>

definition latest_join :: "file_history list \<Rightarrow> file_history list" where
  "latest_join rows = [fh. fh \<leftarrow> rows, l \<leftarrow> latest_cte rows, fh_id fh = fst l]"

definition scan_snapshot :: "file_history \<Rightarrow> FileHistorySnapshot" where
  "scan_snapshot fh =
     \<lparr>Path = fh_path fh, Hash = fh_hash fh, Content = fh_content fh, Status = fh_status fh,
      PreviousPath = fh_previous_path fh\<rparr>"

text \<open>One turn of the \<^verbatim>\<open>rows.Next()\<close> loop: \<^verbatim>\<open>snapshots[snap.Path] = snap\<close>.\<close>

definition scan_row ::
  "(string \<rightharpoonup> FileHistorySnapshot) \<Rightarrow> file_history \<Rightarrow> (string \<rightharpoonup> FileHistorySnapshot)" where
  "scan_row snapshots fh = snapshots(fh_path fh \<mapsto> scan_snapshot fh)"

definition latestFileSnapshots :: "file_history list \<Rightarrow> (string \<rightharpoonup> FileHistorySnapshot)" where
  "latestFileSnapshots rows = foldl scan_row Map.empty (latest_join rows)"


subsection \<open>\<^verbatim>\<open>scanMarkdownFiles\<close>\<close>

text \<open>The file tree under a path. A node that is not a directory carries what
  \<^verbatim>\<open>os.ReadFile\<close> returns for it; a directory carries the entries \<^verbatim>\<open>os.ReadDir\<close> lists
  (by name) and the error \<^verbatim>\<open>os.ReadDir\<close> reports with them, if any. A file system gives,
  for a path, the tree there or the error of \<^verbatim>\<open>os.Lstat\<close>.\<close>

datatype fsnode =
  FsFile "error + string"
| FsDir "(string \<times> fsnode) list" "error option"

type_synonym filesystem = "string \<Rightarrow> error + fsnode"

text \<open>\<^verbatim>\<open>filepath.Rel(dataDir, p)\<close> for a path \<open>p\<close> the walk reached from \<open>dataDir\<close> through
  the directory entries \<open>names\<close>.\<close>

definition filepath_Rel :: "string list \<Rightarrow> string" where
  "filepath_Rel names = (if names = [] then ''.'' else join_elements names)"

fun IsDir :: "fsnode \<Rightarrow> bool" where
  "IsDir (FsDir entries err) = True"
| "IsDir (FsFile content) = False"

text \<open>The callback \<^verbatim>\<open>scanMarkdownFiles\<close> passes to \<^verbatim>\<open>filepath.WalkDir\<close>, called for the
  path reached through \<open>names\<close>, whose entry is \<open>d\<close> with name \<open>name\<close> (\<open>d\<close> is \<open>None\<close> when
  \<^verbatim>\<open>os.Lstat\<close> of the root failed). It returns the error it hands back to the walk, always
  \<^verbatim>\<open>nil\<close>, and the map \<^verbatim>\<open>current\<close>. \<open>hashBytes\<close> is SHA-256 in hexadecimal.\<close>

definition walk_fn ::
  "(string \<Rightarrow> string) \<Rightarrow> string list \<Rightarrow> string \<Rightarrow> fsnode option \<Rightarrow> error option \<Rightarrow>
   (string \<rightharpoonup> fileRecord) \<Rightarrow> error option \<times> (string \<rightharpoonup> fileRecord)" where
  "walk_fn hashBytes names name d err current =
     (if err \<noteq> None then (None, current)
      else case d of
        None \<Rightarrow> (None, current)
      | Some (FsDir entries rerr) \<Rightarrow> (None, current)
      | Some (FsFile readFile) \<Rightarrow>
          if filepath_Ext name \<noteq> ''.md'' then (None, current)
          else (case readFile of
                  Inl readErr \<Rightarrow> (None, current)
                | Inr content \<Rightarrow>
                    (None, current(filepath_ToSlash (filepath_Rel names) \<mapsto>
                       \<lparr>fr_Hash = hashBytes content, fr_Content = content\<rparr>))))"

text \<open>\<^verbatim>\<open>walkDir\<close> of \<^verbatim>\<open>path/filepath\<close>: the callback on the entry; for a directory, the
  callback again if \<^verbatim>\<open>os.ReadDir\<close> reported an error, then the entries in turn. An error
  of the callback ends the walk (the callback of \<^verbatim>\<open>scanMarkdownFiles\<close> never returns
  \<^verbatim>\<open>SkipDir\<close> or \<^verbatim>\<open>SkipAll\<close>).\<close>

fun walkDir ::
  "(string \<Rightarrow> string) \<Rightarrow> string list \<Rightarrow> string \<Rightarrow> fsnode \<Rightarrow>
   (string \<rightharpoonup> fileRecord) \<Rightarrow> error option \<times> (string \<rightharpoonup> fileRecord)"
and walkDirs ::
  "(string \<Rightarrow> string) \<Rightarrow> string list \<Rightarrow> (string \<times> fsnode) list \<Rightarrow>
   (string \<rightharpoonup> fileRecord) \<Rightarrow> error option \<times> (string \<rightharpoonup> fileRecord)" where
  "walkDir hashBytes names name (FsFile readFile) current =
     walk_fn hashBytes names name (Some (FsFile readFile)) None current"
| "walkDir hashBytes names name (FsDir dirs rerr) current =
     (case walk_fn hashBytes names name (Some (FsDir dirs rerr)) None current of
        (Some e, current1) \<Rightarrow> (Some e, current1)
      | (None, current1) \<Rightarrow>
          (case (if rerr \<noteq> None
                 then walk_fn hashBytes names name (Some (FsDir dirs rerr)) rerr current1
                 else (None, current1)) of
             (Some e, current2) \<Rightarrow> (Some e, current2)
           | (None, current2) \<Rightarrow> walkDirs hashBytes names dirs current2))"
| "walkDirs hashBytes names [] current = (None, current)"
| "walkDirs hashBytes names ((name1, d1) # dirs) current =
     (case walkDir hashBytes (names @ [name1]) name1 d1 current of
        (Some e, current1) \<Rightarrow> (Some e, current1)
      | (None, current1) \<Rightarrow> walkDirs hashBytes names dirs current1)"

definition filepath_WalkDir ::
  "(string \<Rightarrow> string) \<Rightarrow> filesystem \<Rightarrow> string \<Rightarrow>
   (string \<rightharpoonup> fileRecord) \<Rightarrow> error option \<times> (string \<rightharpoonup> fileRecord)" where
  "filepath_WalkDir hashBytes fs root current =
     (case fs root of
        Inl lstatErr \<Rightarrow> walk_fn hashBytes [] (filepath_Base root) None (Some lstatErr) current
      | Inr d \<Rightarrow> walkDir hashBytes [] (filepath_Base root) d current)"

definition os_IsNotExist :: "error option \<Rightarrow> bool" where
  "os_IsNotExist err = (err = Some ErrNotExist)"

definition scanMarkdownFiles ::
  "(string \<Rightarrow> string) \<Rightarrow> filesystem \<Rightarrow> string \<Rightarrow> (string \<rightharpoonup> fileRecord) \<times> error option" where
  "scanMarkdownFiles hashBytes fs dataDir =
     (case filepath_WalkDir hashBytes fs dataDir Map.empty of
        (err, current) \<Rightarrow> if os_IsNotExist err then (current, None) else (current, err))"

definition movementKey :: "string \<Rightarrow> string \<Rightarrow> string" where
  "movementKey hash relPath = hash @ ''|'' @ filepath_Base relPath"

subsection \<open>\<^verbatim>\<open>CaptureFileHistory\<close>\<close>

text \<open>Go leaves the order of a \<^verbatim>\<open>range\<close> over a map unspecified. Each \<^verbatim>\<open>range\<close> of the
  function gets a list of keys \<open>ord\<close> of its own: the loop visits the keys of the map in the
  order they have in \<open>ord\<close>. Over the lists that hold every key of the map once, this is
  every order Go may choose.\<close>

definition go_range :: "('k \<rightharpoonup> 'v) \<Rightarrow> 'k list \<Rightarrow> ('k \<times> 'v) list" where
  "go_range m ord = List.map_filter (\<lambda>k. map_option (Pair k) (m k)) ord"

definition range_order :: "('k \<rightharpoonup> 'v) \<Rightarrow> 'k list \<Rightarrow> bool" where
  "range_order m ord = (distinct ord \<and> dom m \<subseteq> set ord)"

record range_orders =
  ord_alias :: "string list"
  ord_latest :: "string list"
  ord_current :: "string list"
  ord_missing :: "string list"

text \<open>The first loop: \<^verbatim>\<open>aliasPaths\<close>, the previous paths of the latest snapshots.\<close>

definition alias_step :: "string set \<Rightarrow> string \<times> FileHistorySnapshot \<Rightarrow> string set" where
  "alias_step aliasPaths kv =
     (case PreviousPath (snd kv) of None \<Rightarrow> aliasPaths | Some prev \<Rightarrow> insert prev aliasPaths)"

text \<open>The second loop: \<^verbatim>\<open>missing\<close> and \<^verbatim>\<open>moveCandidates\<close>. A key the map
  \<^verbatim>\<open>moveCandidates\<close> does not hold reads as the empty slice.\<close>

definition missing_step ::
  "string set \<Rightarrow> (string \<rightharpoonup> fileRecord) \<Rightarrow>
   (string \<rightharpoonup> FileHistorySnapshot) \<times> (string \<Rightarrow> FileHistorySnapshot list) \<Rightarrow>
   string \<times> FileHistorySnapshot \<Rightarrow>
   (string \<rightharpoonup> FileHistorySnapshot) \<times> (string \<Rightarrow> FileHistorySnapshot list)" where
  "missing_step aliasPaths currentFiles st kv =
     (case st of (missing, moveCandidates) \<Rightarrow>
      case kv of (path, snap) \<Rightarrow>
        if path \<in> aliasPaths then (missing, moveCandidates)
        else if currentFiles path = None then
          (missing(path \<mapsto> snap),
           if Status snap \<noteq> FileStatusDeleted
           then moveCandidates(movementKey (Hash snap) path :=
                  moveCandidates (movementKey (Hash snap) path) @ [snap])
           else moveCandidates)
        else (missing, moveCandidates))"

text \<open>The third loop, over \<^verbatim>\<open>currentFiles\<close>; the state is the table, \<^verbatim>\<open>missing\<close> and
  \<^verbatim>\<open>moveCandidates\<close>.\<close>

definition current_step ::
  "(int \<Rightarrow> string) \<Rightarrow> (string \<rightharpoonup> FileHistorySnapshot) \<Rightarrow>
   file_history list \<times> (string \<rightharpoonup> FileHistorySnapshot) \<times> (string \<Rightarrow> FileHistorySnapshot list) \<Rightarrow>
   string \<times> fileRecord \<Rightarrow>
   file_history list \<times> (string \<rightharpoonup> FileHistorySnapshot) \<times> (string \<Rightarrow> FileHistorySnapshot list)" where
  "current_step clock latest st kv =
     (case st of (rows, missing, moveCandidates) \<Rightarrow>
      case kv of (relPath, file) \<Rightarrow>
        (case latest relPath of
           Some snap \<Rightarrow>
             if Status snap = FileStatusDeleted then
               (insertHistoryEntry clock rows relPath (fr_Hash file) (fr_Content file)
                  FileStatusCreated None, missing, moveCandidates)
             else if Hash snap \<noteq> fr_Hash file then
               (insertHistoryEntry clock rows relPath (fr_Hash file) (fr_Content file)
                  FileStatusModified None, missing, moveCandidates)
             else (rows, missing, moveCandidates)
         | None \<Rightarrow>
             (case moveCandidates (movementKey (fr_Hash file) relPath) of
                prev # snaps \<Rightarrow>
                  (insertHistoryEntry clock rows relPath (fr_Hash file) (fr_Content file)
                     FileStatusMoved (Some (Path prev)),
                   missing(Path prev := None),
                   moveCandidates(movementKey (fr_Hash file) relPath := snaps))
              | [] \<Rightarrow>
                  (insertHistoryEntry clock rows relPath (fr_Hash file) (fr_Content file)
                     FileStatusCreated None, missing, moveCandidates))))"

text \<open>The fourth loop, over what is left of \<^verbatim>\<open>missing\<close>.\<close>

definition deleted_step ::
  "(int \<Rightarrow> string) \<Rightarrow> file_history list \<Rightarrow> string \<times> FileHistorySnapshot \<Rightarrow> file_history list" where
  "deleted_step clock rows kv =
     (if Status (snd kv) = FileStatusDeleted then rows
      else insertHistoryEntry clock rows (Path (snd kv)) (Hash (snd kv)) (Content (snd kv))
             FileStatusDeleted None)"

definition aliasPaths_of :: "(string \<rightharpoonup> FileHistorySnapshot) \<Rightarrow> string list \<Rightarrow> string set" where
  "aliasPaths_of latest ord = foldl alias_step {} (go_range latest ord)"

text \<open>The pass on an open database and a finished scan: the table after the four loops.\<close>

definition reconcile ::
  "(int \<Rightarrow> string) \<Rightarrow> range_orders \<Rightarrow> file_history list \<Rightarrow> (string \<rightharpoonup> fileRecord) \<Rightarrow>
   file_history list" where
  "reconcile clock ords rows currentFiles =
     (let latest = latestFileSnapshots rows;
          aliasPaths = aliasPaths_of latest (ord_alias ords);
          st2 = foldl (missing_step aliasPaths currentFiles) (Map.empty, \<lambda>key. [])
                  (go_range latest (ord_latest ords));
          st3 = foldl (current_step clock latest) (rows, fst st2, snd st2)
                  (go_range currentFiles (ord_current ords))
      in foldl (deleted_step clock) (fst st3) (go_range (fst (snd st3)) (ord_missing ords)))"

definition CaptureFileHistory ::
  "(int \<Rightarrow> string) \<Rightarrow> (string \<Rightarrow> string) \<Rightarrow> filesystem \<Rightarrow> range_orders \<Rightarrow>
   SQLiteIndex \<Rightarrow> string \<Rightarrow> error + SQLiteIndex" where
  "CaptureFileHistory clock hashBytes fs ords s dataDir =
     (case db s of
        None \<Rightarrow> Inl ErrConnDone
      | Some rows \<Rightarrow>
          (case scanMarkdownFiles hashBytes fs dataDir of
             (currentFiles, Some err) \<Rightarrow> Inl err
           | (currentFiles, None) \<Rightarrow>
               Inr (s\<lparr>db := Some (reconcile clock ords rows currentFiles)\<rparr>)))"

text \<open>The rows a call appended: the rows of the table after it beyond those before it.\<close>

definition new_entries :: "SQLiteIndex \<Rightarrow> SQLiteIndex \<Rightarrow> file_history list" where
  "new_entries s s' =
     (case (db s, db s') of
        (Some rows, Some rows') \<Rightarrow> drop (length rows) rows'
      | _ \<Rightarrow> [])"

subsection \<open>Notions the statements use\<close>

text \<open>The row an insertion appends.\<close>

definition inserted ::
  "(int \<Rightarrow> string) \<Rightarrow> file_history list \<Rightarrow> string \<Rightarrow> string \<Rightarrow> string \<Rightarrow>
   FileHistoryStatus \<Rightarrow> string option \<Rightarrow> file_history" where
  "inserted clock rows path hash content status previousPath =
     \<lparr>fh_id = next_id rows, fh_path = path, fh_hash = hash, fh_content = content,
      fh_status = status, fh_previous_path = previousPath,
      fh_recorded_at = clock (next_id rows)\<rparr>"

text \<open>The five columns \<^verbatim>\<open>insertHistoryEntry\<close> gives a row.\<close>

definition inserted_columns ::
  "file_history \<Rightarrow> string \<times> string \<times> string \<times> FileHistoryStatus \<times> string option" where
  "inserted_columns r = (fh_path r, fh_hash r, fh_content r, fh_status r, fh_previous_path r)"

text \<open>What the third loop records for a file, given \<^verbatim>\<open>moveCandidates\<close> as it stands when
  the loop reaches the file: nothing, or a status and a previous path.\<close>

definition classify ::
  "(string \<rightharpoonup> FileHistorySnapshot) \<Rightarrow> (string \<Rightarrow> FileHistorySnapshot list) \<Rightarrow> string \<Rightarrow> fileRecord \<Rightarrow>
   (FileHistoryStatus \<times> string option) option" where
  "classify latest moveCandidates relPath file =
     (case latest relPath of
        Some snap \<Rightarrow>
          if Status snap = FileStatusDeleted then Some (FileStatusCreated, None)
          else if Hash snap \<noteq> fr_Hash file then Some (FileStatusModified, None)
          else None
      | None \<Rightarrow>
          (case moveCandidates (movementKey (fr_Hash file) relPath) of
             prev # snaps \<Rightarrow> Some (FileStatusMoved, Some (Path prev))
           | [] \<Rightarrow> Some (FileStatusCreated, None)))"

definition step_news ::
  "(int \<Rightarrow> string) \<Rightarrow> (string \<rightharpoonup> FileHistorySnapshot) \<Rightarrow> file_history list \<Rightarrow>
   (string \<Rightarrow> FileHistorySnapshot list) \<Rightarrow> string \<Rightarrow> fileRecord \<Rightarrow> file_history list" where
  "step_news clock latest rows moveCandidates relPath file =
     (case classify latest moveCandidates relPath file of
        None \<Rightarrow> []
      | Some (status, prev) \<Rightarrow>
          [inserted clock rows relPath (fr_Hash file) (fr_Content file) status prev])"

text \<open>A never-seen file with a given movement key, and a deletion candidate with a given
  movement key, as the loops test them.\<close>

definition is_new :: "(string \<rightharpoonup> FileHistorySnapshot) \<Rightarrow> string \<Rightarrow> string \<times> fileRecord \<Rightarrow> bool" where
  "is_new latest key kv = (latest (fst kv) = None \<and> movementKey (fr_Hash (snd kv)) (fst kv) = key)"

definition is_cand ::
  "string set \<Rightarrow> (string \<rightharpoonup> fileRecord) \<Rightarrow> string \<Rightarrow> string \<times> FileHistorySnapshot \<Rightarrow> bool" where
  "is_cand aliasPaths currentFiles key kv =
     (fst kv \<notin> aliasPaths \<and> currentFiles (fst kv) = None \<and>
      Status (snd kv) \<noteq> FileStatusDeleted \<and> movementKey (Hash (snd kv)) (fst kv) = key)"

text \<open>\<^verbatim>\<open>moveCandidates[key]\<close> after the second loop: the deletion candidates with the key
  in the order in which the \<^verbatim>\<open>range\<close> over the latest snapshots reached them.\<close>

definition latest_candidates ::
  "range_orders \<Rightarrow> file_history list \<Rightarrow> (string \<rightharpoonup> fileRecord) \<Rightarrow> string \<Rightarrow> FileHistorySnapshot list" where
  "latest_candidates ords rows currentFiles key =
     map snd (filter (is_cand (aliasPaths_of (latestFileSnapshots rows) (ord_alias ords)) currentFiles key)
                (go_range (latestFileSnapshots rows) (ord_latest ords)))"

text \<open>The never-seen files with a movement key, in the order in which the third loop
  reaches them.\<close>

definition new_paths ::
  "range_orders \<Rightarrow> file_history list \<Rightarrow> (string \<rightharpoonup> fileRecord) \<Rightarrow> string \<Rightarrow> (string \<times> fileRecord) list" where
  "new_paths ords rows currentFiles key =
     filter (is_new (latestFileSnapshots rows) key) (go_range currentFiles (ord_current ords))"

text \<open>\<^verbatim>\<open>moveCandidates[key]\<close> once the third loop has gone through the files
  \<open>visited\<close>: each never-seen file with the key took the first candidate left.\<close>

definition candidates_left ::
  "range_orders \<Rightarrow> file_history list \<Rightarrow> (string \<rightharpoonup> fileRecord) \<Rightarrow> (string \<times> fileRecord) list \<Rightarrow>
   string \<Rightarrow> FileHistorySnapshot list" where
  "candidates_left ords rows currentFiles visited key =
     drop (length (filter (is_new (latestFileSnapshots rows) key) visited))
          (latest_candidates ords rows currentFiles key)"

subsection \<open>Example data\<close>

text \<open>A data directory \<open>/data\<close> with the given entries, a clock that stands still, a stand-in
  for the hash, rows as the store writes them, and one key order for all four loops.\<close>

definition example_fs :: "(string \<times> fsnode) list \<Rightarrow> filesystem" where
  "example_fs entries p = (if p = ''/data'' then Inr (FsDir entries None) else Inl ErrNotExist)"

definition example_clock :: "int \<Rightarrow> string" where
  "example_clock i = ''2024-01-01 00:00:00''"

definition example_hash :: "string \<Rightarrow> string" where
  "example_hash content = ''#'' @ content"

definition example_row ::
  "int \<Rightarrow> string \<Rightarrow> string \<Rightarrow> FileHistoryStatus \<Rightarrow> string option \<Rightarrow> file_history" where
  "example_row i path content status prev =
     \<lparr>fh_id = i, fh_path = path, fh_hash = example_hash content, fh_content = content,
      fh_status = status, fh_previous_path = prev, fh_recorded_at = example_clock i\<rparr>"

definition example_orders :: "string list \<Rightarrow> range_orders" where
  "example_orders ord = \<lparr>ord_alias = ord, ord_latest = ord, ord_current = ord, ord_missing = ord\<rparr>"

text \<open>A stand-in for \<^verbatim>\<open>time.Parse\<close> that reads the one text the example clock writes.\<close>

definition example_time_Parse :: "string \<Rightarrow> string \<Rightarrow> Time option" where
  "example_time_Parse layout value =
     (if layout = ''2006-01-02 15:04:05'' \<and> value = ''2024-01-01 00:00:00''
      then Some 63839664000000000000 else None)"

subsection \<open>\<^verbatim>\<open>GetHistoryForPath\<close>\<close>

definition RFC3339Nano :: string where
  "RFC3339Nano = ''2006-01-02T15:04:05.999999999Z07:00''"

definition layouts :: "string list" where
  "layouts = [RFC3339Nano, ''2006-01-02 15:04:05Z07:00'', ''2006-01-02 15:04:05'']"

text \<open>The loop over the layouts; \<open>time_Parse layout value\<close> is \<^verbatim>\<open>time.Parse\<close> of the
  standard library, \<open>None\<close> when it returns an error.\<close>

fun parse_layouts :: "(string \<Rightarrow> string \<Rightarrow> Time option) \<Rightarrow> string list \<Rightarrow> string \<Rightarrow> Time" where
  "parse_layouts time_Parse [] value = zero_Time"
| "parse_layouts time_Parse (layout # rest) value =
     (case time_Parse layout value of
        Some ts \<Rightarrow> ts
      | None \<Rightarrow> parse_layouts time_Parse rest value)"

definition parseSQLiteTimestamp :: "(string \<Rightarrow> string \<Rightarrow> Time option) \<Rightarrow> string \<Rightarrow> Time" where
  "parseSQLiteTimestamp time_Parse value =
     (if value = [] then zero_Time else parse_layouts time_Parse layouts value)"

definition normalizeHistoryPath :: "string \<Rightarrow> string" where
  "normalizeHistoryPath p = filepath_ToSlash (strings_TrimLeft_slash (strings_TrimSpace p))"

text \<open>The second loop of \<^verbatim>\<open>seedHistoryPaths\<close>: the candidates that are not empty, each
  once, in order.\<close>

fun unique_paths :: "string set \<Rightarrow> string list \<Rightarrow> string list" where
  "unique_paths seen [] = []"
| "unique_paths seen (candidate # rest) =
     (if candidate = [] \<or> candidate \<in> seen then unique_paths seen rest
      else candidate # unique_paths (insert candidate seen) rest)"

definition seedHistoryPaths :: "string \<Rightarrow> string list" where
  "seedHistoryPaths p =
     (let normalized = normalizeHistoryPath p in
      if normalized = [] then []
      else unique_paths {}
             ([normalized] @
              (if filepath_Ext normalized = []
               then [normalized @ ''.md'',
                     filepath_ToSlash (filepath_Join normalized ''index.md'')]
               else [])))"

text \<open>Sorting by a comparison, for \<^verbatim>\<open>sort.Slice\<close> and for \<^verbatim>\<open>ORDER BY\<close>: both sort by
  a strict order that is total on rows of distinct ids, where every sorting algorithm
  returns the same list; it is written here as insertion sort.\<close>

fun insert_by :: "('a \<Rightarrow> 'a \<Rightarrow> bool) \<Rightarrow> 'a \<Rightarrow> 'a list \<Rightarrow> 'a list" where
  "insert_by lt x [] = [x]"
| "insert_by lt x (y # ys) =
     (if lt x y then x # y # ys else y # insert_by lt x ys)"

definition sort_Slice :: "('a \<Rightarrow> 'a \<Rightarrow> bool) \<Rightarrow> 'a list \<Rightarrow> 'a list" where
  "sort_Slice lt xs = foldr (insert_by lt) xs []"

text \<open>\<^verbatim>\<open>ORDER BY recorded_at DESC, id DESC\<close>; the stored text compares byte by byte.\<close>

definition order_desc :: "file_history \<Rightarrow> file_history \<Rightarrow> bool" where
  "order_desc a b =
     (fh_recorded_at b < fh_recorded_at a \<or>
      (fh_recorded_at a = fh_recorded_at b \<and> fh_id b < fh_id a))"

definition history_query :: "file_history list \<Rightarrow> string \<Rightarrow> file_history list" where
  "history_query rows current =
     sort_Slice order_desc
       (filter (\<lambda>fh. fh_path fh = current \<or> fh_previous_path fh = Some current) rows)"

definition scan_entry :: "(string \<Rightarrow> string \<Rightarrow> Time option) \<Rightarrow> file_history \<Rightarrow> FileHistoryEntry" where
  "scan_entry time_Parse fh =
     \<lparr>Path = fh_path fh, Hash = fh_hash fh, Content = fh_content fh, Status = fh_status fh,
      PreviousPath = fh_previous_path fh, ID = fh_id fh,
      RecordedAt = parseSQLiteTimestamp time_Parse (fh_recorded_at fh)\<rparr>"

text \<open>One turn of the \<^verbatim>\<open>rows.Next()\<close> loop; the state is \<^verbatim>\<open>queue\<close>, \<^verbatim>\<open>seenIDs\<close> and
  \<^verbatim>\<open>entries\<close>.\<close>

definition row_step ::
  "(string \<Rightarrow> string \<Rightarrow> Time option) \<Rightarrow> string set \<Rightarrow>
   string list \<times> int set \<times> FileHistoryEntry list \<Rightarrow> file_history \<Rightarrow>
   string list \<times> int set \<times> FileHistoryEntry list" where
  "row_step time_Parse visited st fh =
     (case st of (queue, seenIDs, entries) \<Rightarrow>
        let queue1 = (case fh_previous_path fh of
                        Some prev \<Rightarrow> if prev \<notin> visited then queue @ [prev] else queue
                      | None \<Rightarrow> queue)
        in if fh_id fh \<in> seenIDs then (queue1, seenIDs, entries)
           else (queue1, insert (fh_id fh) seenIDs, entries @ [scan_entry time_Parse fh]))"

definition entry_less :: "FileHistoryEntry \<Rightarrow> FileHistoryEntry \<Rightarrow> bool" where
  "entry_less a b =
     (if RecordedAt a = RecordedAt b then ID b < ID a else RecordedAt b < RecordedAt a)"

text \<open>The previous paths the table holds: what the loop can add to the queue.\<close>

definition previous_paths :: "file_history list \<Rightarrow> string set" where
  "previous_paths rows = set (List.map_filter fh_previous_path rows)"

lemma set_insert_by: "set (insert_by lt x ys) = insert x (set ys)"
  by (induction ys) auto

lemma set_sort_Slice: "set (sort_Slice lt xs) = set xs"
  unfolding sort_Slice_def by (induction xs) (simp_all add: set_insert_by)

lemma set_history_query: "set (history_query rows current) \<subseteq> set rows"
  unfolding history_query_def set_sort_Slice by simp

lemma row_step_queue:
  assumes "fh \<in> set rows" "set queue \<subseteq> Q \<union> previous_paths rows"
    "row_step time_Parse visited (queue, seenIDs, entries) fh = (queue1, seenIDs1, entries1)"
  shows "set queue1 \<subseteq> Q \<union> previous_paths rows"
proof (cases "fh_previous_path fh")
  case None
  with assms(3) have "queue1 = queue"
    by (simp add: row_step_def Let_def split: if_splits)
  with assms(2) show ?thesis by simp
next
  case (Some prev)
  with assms(1) have "prev \<in> previous_paths rows"
    by (simp add: previous_paths_def map_filter_def image_iff) force
  moreover from Some assms(3) have "set queue1 \<subseteq> insert prev (set queue)"
    by (auto simp: row_step_def Let_def split: if_splits)
  ultimately show ?thesis using assms(2) by auto
qed

lemma foldl_row_step_queue:
  assumes "set rs \<subseteq> set rows" "set queue \<subseteq> Q \<union> previous_paths rows"
    "foldl (row_step time_Parse visited) (queue, seenIDs, entries) rs = (queue1, seenIDs1, entries1)"
  shows "set queue1 \<subseteq> Q \<union> previous_paths rows"
  using assms
proof (induction rs arbitrary: queue seenIDs entries)
  case Nil
  then show ?case by simp
next
  case (Cons fh rs)
  obtain q2 s2 e2 where step: "row_step time_Parse visited (queue, seenIDs, entries) fh = (q2, s2, e2)"
    by (cases "row_step time_Parse visited (queue, seenIDs, entries) fh") auto
  from Cons.prems(1) have fh: "fh \<in> set rows" and rs: "set rs \<subseteq> set rows" by auto
  from row_step_queue[OF fh Cons.prems(2) step] have "set q2 \<subseteq> Q \<union> previous_paths rows" .
  moreover from Cons.prems(3) step
  have "foldl (row_step time_Parse visited) (q2, s2, e2) rs = (queue1, seenIDs1, entries1)" by simp
  ultimately show ?case using Cons.IH[OF rs] by blast
qed

text \<open>The loop over the queue. It ends: a turn either drops a visited path from the queue,
  or visits one more of the finitely many paths that are queued or are previous paths of
  the table.\<close>

function history_loop ::
  "(string \<Rightarrow> string \<Rightarrow> Time option) \<Rightarrow> file_history list \<Rightarrow> string set \<Rightarrow> string list \<Rightarrow>
   int set \<Rightarrow> FileHistoryEntry list \<Rightarrow> FileHistoryEntry list" where
  "history_loop time_Parse rows visited [] seenIDs entries = entries"
| "history_loop time_Parse rows visited (current # queue) seenIDs entries =
     (if current \<in> visited then history_loop time_Parse rows visited queue seenIDs entries
      else case foldl (row_step time_Parse (insert current visited)) (queue, seenIDs, entries)
                  (history_query rows current) of
             (queue1, seenIDs1, entries1) \<Rightarrow>
               history_loop time_Parse rows (insert current visited) queue1 seenIDs1 entries1)"
  by pat_completeness auto
termination
proof (relation "measures
    [\<lambda>(time_Parse, rows, visited, queue, seenIDs, entries).
        card ((previous_paths rows \<union> set queue) - visited),
     \<lambda>(time_Parse, rows, visited, queue, seenIDs, entries). length queue]", goal_cases)
  case 1
  show ?case by simp
next
  case (2 time_Parse rows visited current queue seenIDs entries)
  then have "(previous_paths rows \<union> set queue) - visited
             = (previous_paths rows \<union> set (current # queue)) - visited" by auto
  then show ?case by simp
next
  case (3 time_Parse rows visited current queue seenIDs entries queue1 rest seenIDs1 entries1)
  then have fold: "foldl (row_step time_Parse (insert current visited)) (queue, seenIDs, entries)
                     (history_query rows current) = (queue1, seenIDs1, entries1)" by simp
  have "set queue \<subseteq> set queue \<union> previous_paths rows" by simp
  from foldl_row_step_queue[OF set_history_query this fold]
  have sub: "set queue1 \<subseteq> set queue \<union> previous_paths rows" .
  have fin: "finite ((previous_paths rows \<union> set (current # queue)) - visited)"
    by (simp add: previous_paths_def)
  have "(previous_paths rows \<union> set queue1) - insert current visited
        \<subset> (previous_paths rows \<union> set (current # queue)) - visited"
    using sub 3(1) by auto
  from psubset_card_mono[OF fin this] show ?case by simp
qed

definition GetHistoryForPath ::
  "(string \<Rightarrow> string \<Rightarrow> Time option) \<Rightarrow> SQLiteIndex \<Rightarrow> string \<Rightarrow> error + FileHistoryEntry list" where
  "GetHistoryForPath time_Parse s path =
     (case db s of
        None \<Rightarrow> Inl ErrConnDone
      | Some rows \<Rightarrow>
          Inr (sort_Slice entry_less
                 (history_loop time_Parse rows {} (seedHistoryPaths path) {} [])))"


subsection \<open>The lifecycle of the repository's test\<close>

text \<open>\<^verbatim>\<open>TestCaptureFileHistoryLifecycle\<close> writes a file, modifies it, moves it into a folder
  and deletes it, with one pass after each step. \<open>captures\<close> runs the passes in turn, each on
  its own state of the file system and with its own orders of the map loops, and stops at
  the first error.\<close>

fun captures ::
  "(int \<Rightarrow> string) \<Rightarrow> (string \<Rightarrow> string) \<Rightarrow> string \<Rightarrow> (filesystem \<times> range_orders) list \<Rightarrow>
   SQLiteIndex \<Rightarrow> error + SQLiteIndex" where
  "captures clock hashBytes dataDir [] s = Inr s"
| "captures clock hashBytes dataDir ((fs, ords) # passes) s =
     (case CaptureFileHistory clock hashBytes fs ords s dataDir of
        Inl err \<Rightarrow> Inl err
      | Inr s' \<Rightarrow> captures clock hashBytes dataDir passes s')"

text \<open>The row the store holds for an insertion that got id \<open>i\<close>.\<close>

definition stored_row ::
  "(int \<Rightarrow> string) \<Rightarrow> (string \<Rightarrow> string) \<Rightarrow> int \<Rightarrow> string \<Rightarrow> string \<Rightarrow> FileHistoryStatus \<Rightarrow>
   string option \<Rightarrow> file_history" where
  "stored_row clock hashBytes i path content status prev =
     \<lparr>fh_id = i, fh_path = path, fh_hash = hashBytes content, fh_content = content,
      fh_status = status, fh_previous_path = prev, fh_recorded_at = clock i\<rparr>"

text \<open>The four states of the data directory: \<open>a.md\<close> with content \<open>c1\<close>, then with \<open>c2\<close>,
  then moved to \<open>b/a.md\<close>, then deleted (the directory \<open>b\<close> stays).\<close>

definition lifecycle_files ::
  "string \<Rightarrow> string \<Rightarrow> string \<Rightarrow> filesystem \<Rightarrow> filesystem \<Rightarrow> filesystem \<Rightarrow> filesystem \<Rightarrow> bool" where
  "lifecycle_files dataDir c1 c2 fs1 fs2 fs3 fs4 =
     (fs1 dataDir = Inr (FsDir [(''a.md'', FsFile (Inr c1))] None) \<and>
      fs2 dataDir = Inr (FsDir [(''a.md'', FsFile (Inr c2))] None) \<and>
      fs3 dataDir = Inr (FsDir [(''b'', FsDir [(''a.md'', FsFile (Inr c2))] None)] None) \<and>
      fs4 dataDir = Inr (FsDir [(''b'', FsDir [] None)] None))"

text \<open>Orders of the map loops for these passes: lists that hold the two paths of the
  lifecycle once each (and any other keys).\<close>

definition lifecycle_order :: "string list \<Rightarrow> bool" where
  "lifecycle_order ord = (distinct ord \<and> ''a.md'' \<in> set ord \<and> ''b/a.md'' \<in> set ord)"

definition lifecycle_orders :: "range_orders \<Rightarrow> bool" where
  "lifecycle_orders ords =
     (lifecycle_order (ord_alias ords) \<and> lifecycle_order (ord_latest ords) \<and>
      lifecycle_order (ord_current ords) \<and> lifecycle_order (ord_missing ords))"

text \<open>The store's clock does not run backwards over the four insertions: the times read
  from the stored texts do not decrease.\<close>

definition lifecycle_clock :: "(string \<Rightarrow> string \<Rightarrow> Time option) \<Rightarrow> (int \<Rightarrow> string) \<Rightarrow> bool" where
  "lifecycle_clock time_Parse clock =
     (parseSQLiteTimestamp time_Parse (clock 1) \<le> parseSQLiteTimestamp time_Parse (clock 2) \<and>
      parseSQLiteTimestamp time_Parse (clock 2) \<le> parseSQLiteTimestamp time_Parse (clock 3) \<and>
      parseSQLiteTimestamp time_Parse (clock 3) \<le> parseSQLiteTimestamp time_Parse (clock 4))"

section \<open>The latest-state index\<close>

lemma scan_row_apply:
  "scan_row m fh p = (if p = fh_path fh then Some (scan_snapshot fh) else m p)"
  by (simp add: scan_row_def)













section \<open>Iterating a map\<close>

lemma go_range_Nil: "go_range m [] = []"
  by (simp add: go_range_def)

lemma go_range_Cons:
  "go_range m (k # ord) = (case m k of None \<Rightarrow> go_range m ord | Some v \<Rightarrow> (k, v) # go_range m ord)"
  by (simp add: go_range_def split: option.split)

lemma in_go_range: "(k, v) \<in> set (go_range m ord) \<longleftrightarrow> k \<in> set ord \<and> m k = Some v"
  by (induction ord) (auto simp: go_range_Nil go_range_Cons split: option.splits)

lemma fst_go_range: "map fst (go_range m ord) = filter (\<lambda>k. m k \<noteq> None) ord"
  by (induction ord) (auto simp: go_range_Nil go_range_Cons split: option.splits)

lemma distinct_go_range: "distinct ord \<Longrightarrow> distinct (map fst (go_range m ord))"
  by (simp add: fst_go_range)

lemma go_range_value: "kv \<in> set (go_range m ord) \<Longrightarrow> m (fst kv) = Some (snd kv)"
  using in_go_range[of "fst kv" "snd kv" m ord] by simp

lemma range_order_mem:
  "range_order m ord \<Longrightarrow> m k = Some v \<Longrightarrow> (k, v) \<in> set (go_range m ord)"
  unfolding range_order_def in_go_range by auto

text \<open>An element of a list with distinct keys splits the list around it.\<close>

lemma split_distinct_keys:
  assumes "distinct (map fst kvs)" "(k, v) \<in> set kvs"
  obtains xs ys where "kvs = xs @ (k, v) # ys" "k \<notin> fst ` set xs" "k \<notin> fst ` set ys"
proof -
  from split_list[OF assms(2)] obtain xs ys where kvs: "kvs = xs @ (k, v) # ys" by blast
  with assms(1) have "k \<notin> fst ` set xs" "k \<notin> fst ` set ys" by auto
  with kvs show ?thesis by (rule that)
qed

section \<open>Latest snapshots are stored under their own path\<close>

lemma foldl_scan_row_Path:
  assumes "\<And>k snap. m k = Some snap \<Longrightarrow> Path snap = k"
    and "foldl scan_row m L k = Some snap"
  shows "Path snap = k"
  using assms
proof (induction L arbitrary: m)
  case Nil
  then show ?case by simp
next
  case (Cons fh L)
  have "\<And>k snap. scan_row m fh k = Some snap \<Longrightarrow> Path snap = k"
  proof -
    fix k snap assume "scan_row m fh k = Some snap"
    then show "Path snap = k"
      using Cons.prems(1)[of k snap] by (auto simp: scan_row_apply scan_snapshot_def split: if_splits)
  qed
  from Cons.IH[OF this] Cons.prems(2) show ?case by simp
qed

lemma latest_Path: "latestFileSnapshots rows k = Some snap \<Longrightarrow> Path snap = k"
  unfolding latestFileSnapshots_def by (rule foldl_scan_row_Path[of Map.empty]) simp_all

section \<open>Inserting\<close>

lemma insertHistoryEntry_append:
  "insertHistoryEntry clock rows path hash content status prev
     = rows @ [inserted clock rows path hash content status prev]"
  by (simp add: insertHistoryEntry_def inserted_def)

lemma inserted_sel:
  "fh_path (inserted clock rows path hash content status prev) = path"
  "fh_hash (inserted clock rows path hash content status prev) = hash"
  "fh_content (inserted clock rows path hash content status prev) = content"
  "fh_status (inserted clock rows path hash content status prev) = status"
  "fh_previous_path (inserted clock rows path hash content status prev) = prev"
  by (simp_all add: inserted_def)

section \<open>The loop over the current files\<close>

lemma current_step_rows:
  "fst (current_step clock L (rows, M, mc) (q, f)) = rows @ step_news clock L rows mc q f"
  by (simp add: current_step_def step_news_def classify_def insertHistoryEntry_append
           split: option.split list.split)

lemma current_step_mc:
  "snd (snd (current_step clock L (rows, M, mc) (q, f))) K
     = (if is_new L K (q, f) then drop 1 (mc K) else mc K)"
  by (simp add: current_step_def is_new_def split: option.split list.split)

lemma current_step_missing:
  "fst (snd (current_step clock L (rows, M, mc) (q, f))) k = Some v \<Longrightarrow> M k = Some v"
  by (simp add: current_step_def split: option.splits list.splits if_splits)

lemma current_step_consumed:
  "L q = None \<Longrightarrow> mc (movementKey (fr_Hash f) q) = prev # rest \<Longrightarrow>
   fst (snd (current_step clock L (rows, M, mc) (q, f))) (Path prev) = None"
  by (simp add: current_step_def)

lemma step_news_path: "r \<in> set (step_news clock L rows mc q f) \<Longrightarrow> fh_path r = q"
  by (auto simp: step_news_def inserted_sel split: option.splits)

lemma foldl_current_mc:
  "snd (snd (foldl (current_step clock L) (rows, M, mc) kvs)) K
     = drop (length (filter (is_new L K) kvs)) (mc K)"
proof (induction kvs arbitrary: rows M mc)
  case Nil
  show ?case by simp
next
  case (Cons kv kvs)
  obtain q f where kv: "kv = (q, f)" by (cases kv)
  obtain rows1 M1 mc1 where st: "current_step clock L (rows, M, mc) (q, f) = (rows1, M1, mc1)"
    by (cases "current_step clock L (rows, M, mc) (q, f)") auto
  from current_step_mc[of clock L rows M mc q f K] st
  have mc1: "mc1 K = (if is_new L K (q, f) then drop 1 (mc K) else mc K)" by simp
  have "snd (snd (foldl (current_step clock L) (rows, M, mc) (kv # kvs))) K
        = snd (snd (foldl (current_step clock L) (rows1, M1, mc1) kvs)) K"
    by (simp add: kv st)
  also have "\<dots> = drop (length (filter (is_new L K) kvs)) (mc1 K)" by (rule Cons.IH)
  also have "\<dots> = drop (length (filter (is_new L K) (kv # kvs))) (mc K)"
    by (simp add: mc1 kv)
  finally show ?case .
qed

lemma foldl_current_missing:
  "fst (snd (foldl (current_step clock L) (rows, M, mc) kvs)) k = Some v \<Longrightarrow> M k = Some v"
proof (induction kvs arbitrary: rows M mc)
  case Nil
  then show ?case by simp
next
  case (Cons kv kvs)
  obtain q f where kv: "kv = (q, f)" by (cases kv)
  obtain rows1 M1 mc1 where st: "current_step clock L (rows, M, mc) (q, f) = (rows1, M1, mc1)"
    by (cases "current_step clock L (rows, M, mc) (q, f)") auto
  from Cons.prems have "fst (snd (foldl (current_step clock L) (rows1, M1, mc1) kvs)) k = Some v"
    by (simp add: kv st)
  from Cons.IH[OF this] have "M1 k = Some v" .
  with current_step_missing[of clock L rows M mc q f k v] st show ?case by simp
qed

lemma foldl_current_rows:
  "\<exists>news. fst (foldl (current_step clock L) (rows, M, mc) kvs) = rows @ news \<and>
          fh_path ` set news \<subseteq> fst ` set kvs"
proof (induction kvs arbitrary: rows M mc)
  case Nil
  show ?case by simp
next
  case (Cons kv kvs)
  obtain q f where kv: "kv = (q, f)" by (cases kv)
  obtain rows1 M1 mc1 where st: "current_step clock L (rows, M, mc) (q, f) = (rows1, M1, mc1)"
    by (cases "current_step clock L (rows, M, mc) (q, f)") auto
  from current_step_rows[of clock L rows M mc q f] st
  have rows1: "rows1 = rows @ step_news clock L rows mc q f" by simp
  from Cons.IH[of rows1 M1 mc1] obtain news where
    news: "fst (foldl (current_step clock L) (rows1, M1, mc1) kvs) = rows1 @ news"
      "fh_path ` set news \<subseteq> fst ` set kvs" by blast
  have "fst (foldl (current_step clock L) (rows, M, mc) (kv # kvs))
        = fst (foldl (current_step clock L) (rows1, M1, mc1) kvs)" by (simp add: kv st)
  also have "\<dots> = rows1 @ news" by (rule news(1))
  also have "\<dots> = rows @ (step_news clock L rows mc q f @ news)" by (simp add: rows1)
  finally have "fst (foldl (current_step clock L) (rows, M, mc) (kv # kvs))
        = rows @ (step_news clock L rows mc q f @ news)" .
  moreover have "fh_path ` set (step_news clock L rows mc q f @ news) \<subseteq> fst ` set (kv # kvs)"
    using news(2) step_news_path[of _ clock L rows mc q f] by (auto simp: kv)
  ultimately show ?case by blast
qed

section \<open>The loop over the latest snapshots\<close>

lemma missing_step_mc:
  "snd (missing_step A C (M, mc) (k, snap)) K
     = (if is_cand A C K (k, snap) then mc K @ [snap] else mc K)"
  by (simp add: missing_step_def is_cand_def)

lemma missing_step_missing:
  "fst (missing_step A C (M, mc) (k, snap)) k' = Some v \<Longrightarrow>
   M k' = Some v \<or> (k' = k \<and> v = snap \<and> C k = None)"
  by (simp add: missing_step_def split: if_splits)

lemma foldl_missing_mc:
  "snd (foldl (missing_step A C) (M, mc) kvs) K = mc K @ map snd (filter (is_cand A C K) kvs)"
proof (induction kvs arbitrary: M mc)
  case Nil
  show ?case by simp
next
  case (Cons kv kvs)
  obtain k snap where kv: "kv = (k, snap)" by (cases kv)
  obtain M1 mc1 where st: "missing_step A C (M, mc) (k, snap) = (M1, mc1)"
    by (cases "missing_step A C (M, mc) (k, snap)") auto
  from missing_step_mc[of A C M mc k snap K] st
  have mc1: "mc1 K = (if is_cand A C K (k, snap) then mc K @ [snap] else mc K)" by simp
  have "snd (foldl (missing_step A C) (M, mc) (kv # kvs)) K
        = snd (foldl (missing_step A C) (M1, mc1) kvs) K" by (simp add: kv st)
  also have "\<dots> = mc1 K @ map snd (filter (is_cand A C K) kvs)" by (rule Cons.IH)
  also have "\<dots> = mc K @ map snd (filter (is_cand A C K) (kv # kvs))" by (simp add: mc1 kv)
  finally show ?case .
qed

lemma foldl_missing_missing:
  "fst (foldl (missing_step A C) (M, mc) kvs) k = Some v \<Longrightarrow>
   M k = Some v \<or> ((k, v) \<in> set kvs \<and> C k = None)"
proof (induction kvs arbitrary: M mc)
  case Nil
  then show ?case by simp
next
  case (Cons kv kvs)
  obtain k1 snap where kv: "kv = (k1, snap)" by (cases kv)
  obtain M1 mc1 where st: "missing_step A C (M, mc) (k1, snap) = (M1, mc1)"
    by (cases "missing_step A C (M, mc) (k1, snap)") auto
  from Cons.prems have "fst (foldl (missing_step A C) (M1, mc1) kvs) k = Some v"
    by (simp add: kv st)
  from Cons.IH[OF this] have "M1 k = Some v \<or> ((k, v) \<in> set kvs \<and> C k = None)" .
  then show ?case
  proof
    assume "M1 k = Some v"
    with missing_step_missing[of A C M mc k1 snap k v] st
    have "M k = Some v \<or> (k = k1 \<and> v = snap \<and> C k1 = None)" by simp
    then show ?thesis by (auto simp: kv)
  next
    assume "(k, v) \<in> set kvs \<and> C k = None"
    then show ?thesis by simp
  qed
qed

section \<open>The loop over the missing paths\<close>

lemma foldl_deleted_rows:
  "\<exists>news. foldl (deleted_step clock) rows kvs = rows @ news \<and>
          (\<forall>r \<in> set news. fh_status r = FileStatusDeleted \<and> fh_path r \<in> (\<lambda>kv. Path (snd kv)) ` set kvs)"
proof (induction kvs arbitrary: rows)
  case Nil
  show ?case by simp
next
  case (Cons kv kvs)
  define n1 where "n1 = (if Status (snd kv) = FileStatusDeleted then []
      else [inserted clock rows (Path (snd kv)) (Hash (snd kv)) (Content (snd kv)) FileStatusDeleted None])"
  have step: "deleted_step clock rows kv = rows @ n1"
    by (simp add: deleted_step_def n1_def insertHistoryEntry_append)
  from Cons.IH[of "rows @ n1"] obtain news where
    news: "foldl (deleted_step clock) (rows @ n1) kvs = (rows @ n1) @ news"
      "\<forall>r \<in> set news. fh_status r = FileStatusDeleted \<and> fh_path r \<in> (\<lambda>kv. Path (snd kv)) ` set kvs"
    by blast
  have "foldl (deleted_step clock) rows (kv # kvs) = rows @ (n1 @ news)"
    by (simp add: step news(1))
  moreover have "\<forall>r \<in> set (n1 @ news). fh_status r = FileStatusDeleted \<and>
      fh_path r \<in> (\<lambda>kv. Path (snd kv)) ` set (kv # kvs)"
    using news(2) by (auto simp: n1_def inserted_sel)
  ultimately show ?case by blast
qed

section \<open>One pass\<close>

lemma reconcile_core:
  assumes oc: "range_order C (ord_current ords)" and q: "C q = Some f"
  shows "\<exists>news xs ys n1.
     go_range C (ord_current ords) = xs @ (q, f) # ys \<and> q \<notin> fst ` set xs \<and> q \<notin> fst ` set ys \<and>
     reconcile clock ords rows C = rows @ news \<and>
     filter (\<lambda>r. fh_path r = q) news
       = step_news clock (latestFileSnapshots rows) (rows @ n1) (candidates_left ords rows C xs) q f \<and>
     (\<forall>prev rest. latestFileSnapshots rows q = None \<longrightarrow>
        candidates_left ords rows C xs (movementKey (fr_Hash f) q) = prev # rest \<longrightarrow>
        (\<forall>r \<in> set news. fh_path r \<noteq> Path prev))"
proof -
  define L where "L = latestFileSnapshots rows"
  define A where "A = aliasPaths_of L (ord_alias ords)"
  define kv2 where "kv2 = go_range L (ord_latest ords)"
  define st2 where "st2 = foldl (missing_step A C) (Map.empty, \<lambda>key. []) kv2"
  define M2 where "M2 = fst st2"
  define mc2 where "mc2 = snd st2"
  define kv3 where "kv3 = go_range C (ord_current ords)"
  have mc2: "mc2 K = latest_candidates ords rows C K" for K
    using foldl_missing_mc[of A C Map.empty "\<lambda>key. []" kv2 K]
    by (simp add: mc2_def st2_def latest_candidates_def A_def L_def kv2_def)
  have M2: "L k = Some v \<and> C k = None" if "M2 k = Some v" for k v
  proof -
    from that have "fst (foldl (missing_step A C) (Map.empty, \<lambda>key. []) kv2) k = Some v"
      by (simp add: M2_def st2_def)
    from foldl_missing_missing[OF this] have "(k, v) \<in> set kv2" "C k = None" by simp_all
    then show ?thesis by (simp add: kv2_def in_go_range)
  qed
  from oc have "distinct (map fst kv3)" by (simp add: kv3_def range_order_def distinct_go_range)
  moreover from oc q have "(q, f) \<in> set kv3" by (simp add: kv3_def range_order_mem)
  ultimately obtain xs ys where split: "kv3 = xs @ (q, f) # ys" "q \<notin> fst ` set xs" "q \<notin> fst ` set ys"
    by (rule split_distinct_keys)
  have keys: "C k \<noteq> None" if "k \<in> fst ` set kv3" for k
  proof -
    from that obtain v where "(k, v) \<in> set kv3" by auto
    then show ?thesis by (simp add: kv3_def in_go_range)
  qed
  obtain rx Mx mcx where stx: "foldl (current_step clock L) (rows, M2, mc2) xs = (rx, Mx, mcx)"
    by (cases "foldl (current_step clock L) (rows, M2, mc2) xs") auto
  obtain rq Mq mcq where stq: "current_step clock L (rx, Mx, mcx) (q, f) = (rq, Mq, mcq)"
    by (cases "current_step clock L (rx, Mx, mcx) (q, f)") auto
  obtain ry My mcy where sty: "foldl (current_step clock L) (rq, Mq, mcq) ys = (ry, My, mcy)"
    by (cases "foldl (current_step clock L) (rq, Mq, mcq) ys") auto
  have st3: "foldl (current_step clock L) (rows, M2, mc2) kv3 = (ry, My, mcy)"
    by (simp add: split(1) stx stq sty)
  from foldl_current_rows[of clock L rows M2 mc2 xs] stx obtain n1 where
    n1: "rx = rows @ n1" "fh_path ` set n1 \<subseteq> fst ` set xs" by auto
  have mcx: "mcx = candidates_left ords rows C xs"
  proof (rule ext)
    fix K
    from foldl_current_mc[of clock L rows M2 mc2 xs K] stx
    show "mcx K = candidates_left ords rows C xs K"
      by (simp add: mc2 candidates_left_def L_def)
  qed
  define nq where "nq = step_news clock L rx mcx q f"
  from current_step_rows[of clock L rx Mx mcx q f] stq have rq: "rq = rx @ nq"
    by (simp add: nq_def)
  from foldl_current_rows[of clock L rq Mq mcq ys] sty obtain n3 where
    n3: "ry = rq @ n3" "fh_path ` set n3 \<subseteq> fst ` set ys" by auto
  from foldl_deleted_rows[of clock ry "go_range My (ord_missing ords)"] obtain n4 where
    n4: "foldl (deleted_step clock) ry (go_range My (ord_missing ords)) = ry @ n4"
      "\<forall>r \<in> set n4. fh_status r = FileStatusDeleted \<and>
          fh_path r \<in> (\<lambda>kv. Path (snd kv)) ` set (go_range My (ord_missing ords))" by blast
  have My: "Mq k = Some v \<and> L k = Some v \<and> C k = None \<and> Path v = k" if "My k = Some v" for k v
  proof -
    from that foldl_current_missing[of clock L rq Mq mcq ys k v] sty have Mq: "Mq k = Some v" by simp
    with current_step_missing[of clock L rx Mx mcx q f k v] stq have "Mx k = Some v" by simp
    with foldl_current_missing[of clock L rows M2 mc2 xs k v] stx have "M2 k = Some v" by simp
    from M2[OF this] have "L k = Some v" "C k = None" by simp_all
    with Mq latest_Path[of rows k v] show ?thesis by (simp add: L_def)
  qed
  have n4_paths: "\<exists>v. My (fh_path r) = Some v" if "r \<in> set n4" for r
  proof -
    from n4(2) that obtain kv where kv: "kv \<in> set (go_range My (ord_missing ords))"
      "fh_path r = Path (snd kv)" by auto
    from go_range_value[OF kv(1)] have "My (fst kv) = Some (snd kv)" .
    with My[of "fst kv" "snd kv"] kv(2) show ?thesis by simp
  qed
  define news where "news = n1 @ nq @ n3 @ n4"
  have result: "reconcile clock ords rows C = rows @ news"
    unfolding reconcile_def Let_def
    using st3 n4(1)
    by (simp add: L_def[symmetric] A_def[symmetric] kv2_def[symmetric] st2_def[symmetric]
          M2_def[symmetric] mc2_def[symmetric] kv3_def[symmetric] news_def n1(1) rq n3(1))
  have f1: "filter (\<lambda>r. fh_path r = q) n1 = []"
    using n1(2) split(2) by (auto simp: filter_empty_conv)
  have f3: "filter (\<lambda>r. fh_path r = q) n3 = []"
    using n3(2) split(3) by (auto simp: filter_empty_conv)
  have f4: "filter (\<lambda>r. fh_path r = q) n4 = []"
  proof -
    have "fh_path r \<noteq> q" if "r \<in> set n4" for r
    proof -
      from n4_paths[OF that] obtain v where "My (fh_path r) = Some v" by blast
      from My[OF this] have "C (fh_path r) = None" by simp
      with q show ?thesis by auto
    qed
    then show ?thesis by (auto simp: filter_empty_conv)
  qed
  have fq: "filter (\<lambda>r. fh_path r = q) nq = nq"
    using step_news_path[of _ clock L rx mcx q f] by (simp add: nq_def filter_id_conv)
  have filt: "filter (\<lambda>r. fh_path r = q) news
       = step_news clock (latestFileSnapshots rows) (rows @ n1) (candidates_left ords rows C xs) q f"
    by (simp add: news_def f1 f3 f4 fq) (simp add: nq_def n1(1) mcx L_def)
  have consumed: "\<forall>r \<in> set news. fh_path r \<noteq> Path prev"
    if none: "latestFileSnapshots rows q = None"
    and cons: "candidates_left ords rows C xs (movementKey (fr_Hash f) q) = prev # rest"
    for prev rest
  proof
    fix r assume r: "r \<in> set news"
    from cons have "prev \<in> set (candidates_left ords rows C xs (movementKey (fr_Hash f) q))" by simp
    then have "prev \<in> set (latest_candidates ords rows C (movementKey (fr_Hash f) q))"
      unfolding candidates_left_def by (rule in_set_dropD)
    then obtain k where k: "(k, prev) \<in> set kv2" "C k = None"
      by (auto simp: latest_candidates_def is_cand_def kv2_def L_def)
    from k(1) have "L k = Some prev" by (simp add: kv2_def in_go_range)
    from latest_Path[of rows k prev] this have Pk: "Path prev = k" by (simp add: L_def)
    from none cons current_step_consumed[of L q mcx f prev rest clock rx Mx] stq
    have Mq_none: "Mq (Path prev) = None" by (simp add: mcx L_def)
    from r consider "r \<in> set n1" | "r \<in> set nq" | "r \<in> set n3" | "r \<in> set n4"
      by (auto simp: news_def)
    then show "fh_path r \<noteq> Path prev"
    proof cases
      case 1
      with n1(2) split(1) have "fh_path r \<in> fst ` set kv3" by auto
      from keys[OF this] k(2) Pk show ?thesis by auto
    next
      case 2
      from step_news_path[of r clock L rx mcx q f] 2 have "fh_path r = q" by (simp add: nq_def)
      with q k(2) Pk show ?thesis by auto
    next
      case 3
      with n3(2) split(1) have "fh_path r \<in> fst ` set kv3" by auto
      from keys[OF this] k(2) Pk show ?thesis by auto
    next
      case 4
      from n4_paths[OF this] obtain v where "My (fh_path r) = Some v" by blast
      from My[OF this] have "Mq (fh_path r) = Some v" by simp
      with Mq_none show ?thesis by auto
    qed
  qed
  from split result filt consumed show ?thesis
    unfolding kv3_def by blast
qed

section \<open>The scan never fails\<close>

lemma walk_fn_no_error: "fst (walk_fn hashBytes names name d err current) = None"
  by (simp add: walk_fn_def split: option.split fsnode.split sum.split)

lemma walkDir_no_error:
  "fst (walkDir hashBytes names name d current) = None"
  "fst (walkDirs hashBytes names dirs current) = None"
proof (induction hashBytes names name d current and hashBytes names dirs current
       rule: walkDir_walkDirs.induct)
  case (1 hashBytes names name readFile current)
  show ?case by (simp add: walk_fn_no_error)
next
  case (2 hashBytes names name dirs rerr current)
  obtain e1 c1 where w1: "walk_fn hashBytes names name (Some (FsDir dirs rerr)) None current = (e1, c1)"
    by (cases "walk_fn hashBytes names name (Some (FsDir dirs rerr)) None current") auto
  with walk_fn_no_error[of hashBytes names name "Some (FsDir dirs rerr)" None current]
  have e1: "e1 = None" by simp
  obtain e2 c2 where w2: "(if rerr \<noteq> None
                 then walk_fn hashBytes names name (Some (FsDir dirs rerr)) rerr c1
                 else (None, c1)) = (e2, c2)"
    by (cases "(if rerr \<noteq> None
                 then walk_fn hashBytes names name (Some (FsDir dirs rerr)) rerr c1
                 else (None, c1))") auto
  with walk_fn_no_error[of hashBytes names name "Some (FsDir dirs rerr)" rerr c1]
  have e2: "e2 = None" by (auto split: if_splits)
  from 2[OF w1[unfolded e1, symmetric] refl w2[unfolded e2, symmetric] refl]
  have IH: "fst (walkDirs hashBytes names dirs c2) = None" .
  have "walkDir hashBytes names name (FsDir dirs rerr) current = walkDirs hashBytes names dirs c2"
  proof (cases rerr)
    case None
    with w2 have "c2 = c1" by simp
    with None w1 e1 show ?thesis by simp
  next
    case (Some y)
    with w2 e2 have "walk_fn hashBytes names name (Some (FsDir dirs (Some y))) (Some y) c1 = (None, c2)"
      by simp
    with Some w1 e1 show ?thesis by simp
  qed
  with IH show ?case by simp
next
  case (3 hashBytes names current)
  show ?case by simp
next
  case (4 hashBytes names name1 d1 dirs current)
  obtain e1 c1 where w1: "walkDir hashBytes (names @ [name1]) name1 d1 current = (e1, c1)"
    by (cases "walkDir hashBytes (names @ [name1]) name1 d1 current") auto
  with 4(1) have e1: "e1 = None" by simp
  from 4(2)[OF w1[unfolded e1, symmetric] refl] show ?case by (simp add: w1 e1)
qed

lemma scanMarkdownFiles_no_error: "snd (scanMarkdownFiles hashBytes fs dataDir) = None"
proof -
  obtain e c where w: "filepath_WalkDir hashBytes fs dataDir Map.empty = (e, c)"
    by (cases "filepath_WalkDir hashBytes fs dataDir Map.empty") auto
  have "fst (filepath_WalkDir hashBytes fs dataDir Map.empty) = None"
    by (simp add: filepath_WalkDir_def walk_fn_no_error walkDir_no_error split: sum.split)
  with w have "e = None" by simp
  with w show ?thesis
    by (simp add: scanMarkdownFiles_def os_IsNotExist_def)
qed

lemma CaptureFileHistory_open:
  assumes "db s = Some rows" "scanMarkdownFiles hashBytes fs dataDir = (currentFiles, err)"
  shows "CaptureFileHistory clock hashBytes fs ords s dataDir
           = Inr (s\<lparr>db := Some (reconcile clock ords rows currentFiles)\<rparr>)"
proof -
  from scanMarkdownFiles_no_error[of hashBytes fs dataDir] assms(2) have "err = None" by simp
  with assms show ?thesis by (simp add: CaptureFileHistory_def)
qed

lemma new_entries_append:
  "db s = Some rows \<Longrightarrow> new_entries s (s\<lparr>db := Some (rows @ news)\<rparr>) = news"
  by (simp add: new_entries_def)

lemma inserted_columns_inserted:
  "inserted_columns (inserted clock rows path hash content status prev)
     = (path, hash, content, status, prev)"
  by (simp add: inserted_columns_def inserted_sel)

text \<open>What a pass appends for a file of the snapshot.\<close>

lemma CaptureFileHistory_current:
  assumes s: "db s = Some rows"
    and scan: "scanMarkdownFiles hashBytes fs dataDir = (currentFiles, err)"
    and oc: "range_order currentFiles (ord_current ords)"
    and q: "currentFiles q = Some file"
  shows "\<exists>s' xs ys.
     go_range currentFiles (ord_current ords) = xs @ (q, file) # ys \<and>
     q \<notin> fst ` set xs \<and> q \<notin> fst ` set ys \<and>
     CaptureFileHistory clock hashBytes fs ords s dataDir = Inr s' \<and>
     db s' = Some (rows @ new_entries s s') \<and>
     map inserted_columns (filter (\<lambda>r. fh_path r = q) (new_entries s s'))
       = (case classify (latestFileSnapshots rows) (candidates_left ords rows currentFiles xs) q file of
            None \<Rightarrow> []
          | Some (status, prev) \<Rightarrow> [(q, fr_Hash file, fr_Content file, status, prev)]) \<and>
     (\<forall>prev rest. latestFileSnapshots rows q = None \<longrightarrow>
        candidates_left ords rows currentFiles xs (movementKey (fr_Hash file) q) = prev # rest \<longrightarrow>
        (\<forall>r \<in> set (new_entries s s'). fh_path r \<noteq> Path prev))"
proof -
  from reconcile_core[OF oc q, of clock rows] obtain news xs ys n1 where
    c: "go_range currentFiles (ord_current ords) = xs @ (q, file) # ys"
       "q \<notin> fst ` set xs" "q \<notin> fst ` set ys"
       "reconcile clock ords rows currentFiles = rows @ news"
       "filter (\<lambda>r. fh_path r = q) news
         = step_news clock (latestFileSnapshots rows) (rows @ n1)
             (candidates_left ords rows currentFiles xs) q file"
       "\<forall>prev rest. latestFileSnapshots rows q = None \<longrightarrow>
          candidates_left ords rows currentFiles xs (movementKey (fr_Hash file) q) = prev # rest \<longrightarrow>
          (\<forall>r \<in> set news. fh_path r \<noteq> Path prev)"
    by blast
  define s' where "s' = s\<lparr>db := Some (rows @ news)\<rparr>"
  have run: "CaptureFileHistory clock hashBytes fs ords s dataDir = Inr s'"
    using CaptureFileHistory_open[OF s scan] by (simp add: s'_def c(4))
  have new: "new_entries s s' = news" unfolding s'_def by (rule new_entries_append[OF s])
  have dbs': "db s' = Some (rows @ new_entries s s')" by (simp add: new) (simp add: s'_def)
  have cols: "map inserted_columns (filter (\<lambda>r. fh_path r = q) (new_entries s s'))
       = (case classify (latestFileSnapshots rows) (candidates_left ords rows currentFiles xs) q file of
            None \<Rightarrow> []
          | Some (status, prev) \<Rightarrow> [(q, fr_Hash file, fr_Content file, status, prev)])"
    unfolding new c(5)
    by (simp add: step_news_def inserted_columns_inserted split: option.split)
  have cons: "\<forall>prev rest. latestFileSnapshots rows q = None \<longrightarrow>
        candidates_left ords rows currentFiles xs (movementKey (fr_Hash file) q) = prev # rest \<longrightarrow>
        (\<forall>r \<in> set (new_entries s s'). fh_path r \<noteq> Path prev)"
    using c(6) by (simp add: new)
  show ?thesis
    by (rule exI[of _ s'], rule exI[of _ xs], rule exI[of _ ys])
       (intro conjI c(1-3) run dbs' cols cons)
qed

section \<open>Evaluating on example data\<close>

lemmas eval_defs = CaptureFileHistory_def scanMarkdownFiles_def filepath_WalkDir_def walk_fn_def
  filepath_Ext_def filepath_Base_def filepath_Rel_def filepath_ToSlash_def os_IsNotExist_def
  reconcile_def latestFileSnapshots_def latest_join_def latest_cte_def scan_row_def scan_snapshot_def
  go_range_def aliasPaths_of_def alias_step_def missing_step_def current_step_def deleted_step_def
  insertHistoryEntry_def next_id_def movementKey_def Separator_def Let_def
  new_entries_def inserted_columns_def range_order_def
  example_fs_def example_row_def example_orders_def example_clock_def example_hash_def

section \<open>The reconciliation pass\<close>

text \<open>
  Claim C7. A path of the snapshot whose latest entry is \<open>deleted\<close> gets exactly one new
  row in the pass: \<open>created\<close>, with no previous path and the hash and content of the file now
  there, whatever the deleted entry recorded.
\<close>

theorem reappeared_path_is_created:
  assumes "db s = Some rows"
    and "scanMarkdownFiles hashBytes fs dataDir = (currentFiles, err)"
    and "range_order currentFiles (ord_current ords)"
    and "currentFiles p = Some file"
    and "latestFileSnapshots rows p = Some snap"
    and "Status snap = FileStatusDeleted"
  shows "\<exists>s'. CaptureFileHistory clock hashBytes fs ords s dataDir = Inr s' \<and>
     db s' = Some (rows @ new_entries s s') \<and>
     map inserted_columns (filter (\<lambda>r. fh_path r = p) (new_entries s s'))
       = [(p, fr_Hash file, fr_Content file, FileStatusCreated, None)]"
proof -
  from CaptureFileHistory_current[OF assms(1-4), of clock] obtain s' xs where
    "CaptureFileHistory clock hashBytes fs ords s dataDir = Inr s'"
    "db s' = Some (rows @ new_entries s s')"
    "map inserted_columns (filter (\<lambda>r. fh_path r = p) (new_entries s s'))
       = (case classify (latestFileSnapshots rows) (candidates_left ords rows currentFiles xs) p file of
            None \<Rightarrow> []
          | Some (status, prev) \<Rightarrow> [(p, fr_Hash file, fr_Content file, status, prev)])"
    by blast
  moreover have "classify (latestFileSnapshots rows) (candidates_left ords rows currentFiles xs) p file
      = Some (FileStatusCreated, None)"
    using assms(5,6) by (simp add: classify_def)
  ultimately show ?thesis by simp
qed

theorem reappeared_path_is_created_witness:
  "latestFileSnapshots
     [example_row 1 ''a.md'' ''one'' FileStatusCreated None,
      example_row 2 ''a.md'' ''one'' FileStatusDeleted None] ''a.md''
     = Some \<lparr>Path = ''a.md'', Hash = ''#one'', Content = ''one'', Status = FileStatusDeleted,
              PreviousPath = None\<rparr> \<and>
   (\<exists>s'. CaptureFileHistory example_clock example_hash
           (example_fs [(''a.md'', FsFile (Inr ''one''))]) (example_orders [''a.md''])
           \<lparr>db = Some [example_row 1 ''a.md'' ''one'' FileStatusCreated None,
                       example_row 2 ''a.md'' ''one'' FileStatusDeleted None]\<rparr> ''/data'' = Inr s' \<and>
     map inserted_columns (filter (\<lambda>r. fh_path r = ''a.md'')
        (new_entries \<lparr>db = Some [example_row 1 ''a.md'' ''one'' FileStatusCreated None,
                                 example_row 2 ''a.md'' ''one'' FileStatusDeleted None]\<rparr> s'))
       = [(''a.md'', ''#one'', ''one'', FileStatusCreated, None)])"
proof -
  define rows where "rows = [example_row 1 ''a.md'' ''one'' FileStatusCreated None,
      example_row 2 ''a.md'' ''one'' FileStatusDeleted None]"
  define fr where "fr = \<lparr>fr_Hash = ''#one'', fr_Content = ''one''\<rparr>"
  define snap where "snap = \<lparr>Path = ''a.md'', Hash = ''#one'', Content = ''one'',
      Status = FileStatusDeleted, PreviousPath = None\<rparr>"
  have h1: "db \<lparr>db = Some rows\<rparr> = Some rows" by simp
  have h2: "scanMarkdownFiles example_hash (example_fs [(''a.md'', FsFile (Inr ''one''))]) ''/data''
      = ([''a.md'' \<mapsto> fr], None)" by (simp add: eval_defs fr_def)
  have h3: "range_order [''a.md'' \<mapsto> fr] (ord_current (example_orders [''a.md'']))"
    by (simp add: eval_defs)
  have h4: "[''a.md'' \<mapsto> fr] ''a.md'' = Some fr" by simp
  have h5: "latestFileSnapshots rows ''a.md'' = Some snap" by (simp add: eval_defs rows_def snap_def)
  have h6: "Status snap = FileStatusDeleted" by (simp add: snap_def)
  from reappeared_path_is_created[OF h1 h2 h3 h4 h5 h6, of example_clock] h5
  show ?thesis unfolding rows_def fr_def snap_def by auto
qed

text \<open>
  Claim C10. A file at a path that is the previous path of a latest entry (an alias path),
  whose own latest entry is not \<open>deleted\<close>: the pass appends no row for the path when the
  hash is the recorded one, and exactly one row, \<open>modified\<close> with no previous path, when it
  differs. It is never \<open>created\<close> or \<open>moved\<close>.
\<close>

theorem alias_path_reappears:
  assumes "db s = Some rows"
    and "scanMarkdownFiles hashBytes fs dataDir = (currentFiles, err)"
    and "range_order currentFiles (ord_current ords)"
    and "currentFiles p = Some file"
    and "p \<in> aliasPaths_of (latestFileSnapshots rows) (ord_alias ords)"
    and "latestFileSnapshots rows p = Some snap"
    and "Status snap \<noteq> FileStatusDeleted"
  shows "\<exists>s'. CaptureFileHistory clock hashBytes fs ords s dataDir = Inr s' \<and>
     db s' = Some (rows @ new_entries s s') \<and>
     map inserted_columns (filter (\<lambda>r. fh_path r = p) (new_entries s s'))
       = (if Hash snap = fr_Hash file then []
          else [(p, fr_Hash file, fr_Content file, FileStatusModified, None)])"
proof -
  from CaptureFileHistory_current[OF assms(1-4), of clock] obtain s' xs where
    "CaptureFileHistory clock hashBytes fs ords s dataDir = Inr s'"
    "db s' = Some (rows @ new_entries s s')"
    "map inserted_columns (filter (\<lambda>r. fh_path r = p) (new_entries s s'))
       = (case classify (latestFileSnapshots rows) (candidates_left ords rows currentFiles xs) p file of
            None \<Rightarrow> []
          | Some (status, prev) \<Rightarrow> [(p, fr_Hash file, fr_Content file, status, prev)])"
    by blast
  moreover have "classify (latestFileSnapshots rows) (candidates_left ords rows currentFiles xs) p file
      = (if Hash snap = fr_Hash file then None else Some (FileStatusModified, None))"
    using assms(6,7) by (simp add: classify_def)
  ultimately show ?thesis by (cases "Hash snap = fr_Hash file") simp_all
qed

theorem alias_path_reappears_witness:
  "''a.md'' \<in> aliasPaths_of (latestFileSnapshots
       [example_row 1 ''a.md'' ''one'' FileStatusCreated None,
        example_row 2 ''b/a.md'' ''one'' FileStatusMoved (Some ''a.md'')])
       (ord_alias (example_orders [''a.md'', ''b/a.md''])) \<and>
   (\<exists>s'. CaptureFileHistory example_clock example_hash
           (example_fs [(''a.md'', FsFile (Inr ''two'')),
                        (''b'', FsDir [(''a.md'', FsFile (Inr ''one''))] None)])
           (example_orders [''a.md'', ''b/a.md''])
           \<lparr>db = Some [example_row 1 ''a.md'' ''one'' FileStatusCreated None,
                       example_row 2 ''b/a.md'' ''one'' FileStatusMoved (Some ''a.md'')]\<rparr> ''/data''
         = Inr s' \<and>
     map inserted_columns (filter (\<lambda>r. fh_path r = ''a.md'')
        (new_entries \<lparr>db = Some [example_row 1 ''a.md'' ''one'' FileStatusCreated None,
                                 example_row 2 ''b/a.md'' ''one'' FileStatusMoved (Some ''a.md'')]\<rparr> s'))
       = [(''a.md'', ''#two'', ''two'', FileStatusModified, None)])"
proof -
  define rows where "rows = [example_row 1 ''a.md'' ''one'' FileStatusCreated None,
        example_row 2 ''b/a.md'' ''one'' FileStatusMoved (Some ''a.md'')]"
  define fr where "fr = \<lparr>fr_Hash = ''#two'', fr_Content = ''two''\<rparr>"
  define fr2 where "fr2 = \<lparr>fr_Hash = ''#one'', fr_Content = ''one''\<rparr>"
  define snap where "snap = \<lparr>Path = ''a.md'', Hash = ''#one'', Content = ''one'',
      Status = FileStatusCreated, PreviousPath = None\<rparr>"
  have h1: "db \<lparr>db = Some rows\<rparr> = Some rows" by simp
  have h2: "scanMarkdownFiles example_hash
        (example_fs [(''a.md'', FsFile (Inr ''two'')),
                     (''b'', FsDir [(''a.md'', FsFile (Inr ''one''))] None)]) ''/data''
      = ([''a.md'' \<mapsto> fr, ''b/a.md'' \<mapsto> fr2], None)" by (simp add: eval_defs fr_def fr2_def)
  have h3: "range_order [''a.md'' \<mapsto> fr, ''b/a.md'' \<mapsto> fr2]
      (ord_current (example_orders [''a.md'', ''b/a.md'']))"
    by (simp add: eval_defs)
  have h4: "[''a.md'' \<mapsto> fr, ''b/a.md'' \<mapsto> fr2] ''a.md'' = Some fr" by simp
  have h5: "''a.md'' \<in> aliasPaths_of (latestFileSnapshots rows)
      (ord_alias (example_orders [''a.md'', ''b/a.md'']))" by (simp add: eval_defs rows_def)
  have h6: "latestFileSnapshots rows ''a.md'' = Some snap" by (simp add: eval_defs rows_def snap_def)
  have h7: "Status snap \<noteq> FileStatusDeleted" by (simp add: snap_def)
  from alias_path_reappears[OF h1 h2 h3 h4 h5 h6 h7, of example_clock] h5
  show ?thesis unfolding rows_def fr_def fr2_def snap_def by auto
qed

text \<open>
  Claim C3, amended. The candidates of a movement key are consumed first in, first out, in
  the order in which the second loop reached them: the order of its \<^verbatim>\<open>range\<close> over the map
  of latest snapshots, which Go leaves open, not the order in which their entries were
  recorded. The \<open>j\<close>-th never-seen file with the key (in the order of the third loop) is
  recorded as moved from the \<open>j\<close>-th candidate.
\<close>

theorem move_candidates_fifo_in_range_order:
  assumes "db s = Some rows"
    and "scanMarkdownFiles hashBytes fs dataDir = (currentFiles, err)"
    and "range_order currentFiles (ord_current ords)"
    and "j < length (new_paths ords rows currentFiles key)"
    and "j < length (latest_candidates ords rows currentFiles key)"
    and "new_paths ords rows currentFiles key ! j = (q, file)"
  shows "\<exists>s'. CaptureFileHistory clock hashBytes fs ords s dataDir = Inr s' \<and>
     db s' = Some (rows @ new_entries s s') \<and>
     map inserted_columns (filter (\<lambda>r. fh_path r = q) (new_entries s s'))
       = [(q, fr_Hash file, fr_Content file, FileStatusMoved,
           Some (Path (latest_candidates ords rows currentFiles key ! j)))]"
proof -
  define L where "L = latestFileSnapshots rows"
  define kv3 where "kv3 = go_range currentFiles (ord_current ords)"
  have np: "new_paths ords rows currentFiles key = filter (is_new L key) kv3"
    by (simp add: new_paths_def L_def kv3_def)
  from nth_mem[OF assms(4)] assms(6)
  have "(q, file) \<in> set (new_paths ords rows currentFiles key)" by simp
  then have mem: "(q, file) \<in> set kv3" and new: "is_new L key (q, file)" by (simp_all add: np)
  from mem have q: "currentFiles q = Some file" by (simp add: kv3_def in_go_range)
  from new have Lq: "L q = None" and key: "movementKey (fr_Hash file) q = key"
    by (simp_all add: is_new_def)
  from CaptureFileHistory_current[OF assms(1-3) q, of clock] obtain s' xs ys where
    c: "kv3 = xs @ (q, file) # ys" "q \<notin> fst ` set xs" "q \<notin> fst ` set ys"
       "CaptureFileHistory clock hashBytes fs ords s dataDir = Inr s'"
       "db s' = Some (rows @ new_entries s s')"
       "map inserted_columns (filter (\<lambda>r. fh_path r = q) (new_entries s s'))
         = (case classify L (candidates_left ords rows currentFiles xs) q file of
              None \<Rightarrow> []
            | Some (status, prev) \<Rightarrow> [(q, fr_Hash file, fr_Content file, status, prev)])"
    unfolding kv3_def L_def by (elim exE conjE)
  have np_split: "new_paths ords rows currentFiles key
      = filter (is_new L key) xs @ (q, file) # filter (is_new L key) ys"
    by (simp add: np c(1) new)
  from assms(3) have "distinct (map fst kv3)" by (simp add: kv3_def range_order_def distinct_go_range)
  then have "distinct kv3" by (rule distinct_map[THEN iffD1, THEN conjunct1])
  then have dist: "distinct (new_paths ords rows currentFiles key)" by (simp add: np)
  have at: "new_paths ords rows currentFiles key ! length (filter (is_new L key) xs) = (q, file)"
    by (simp add: np_split nth_append)
  have len: "length (filter (is_new L key) xs) < length (new_paths ords rows currentFiles key)"
    by (simp add: np_split)
  from nth_eq_iff_index_eq[OF dist assms(4) len] assms(6) at
  have j: "length (filter (is_new L key) xs) = j" by simp
  have "candidates_left ords rows currentFiles xs key
        = drop j (latest_candidates ords rows currentFiles key)"
    by (simp add: candidates_left_def L_def[symmetric] j)
  also have "\<dots> = latest_candidates ords rows currentFiles key ! j
                  # drop (Suc j) (latest_candidates ords rows currentFiles key)"
    by (rule Cons_nth_drop_Suc[OF assms(5), symmetric])
  finally have "classify L (candidates_left ords rows currentFiles xs) q file
      = Some (FileStatusMoved, Some (Path (latest_candidates ords rows currentFiles key ! j)))"
    by (simp add: classify_def Lq key)
  with c(4-6) show ?thesis by simp
qed

theorem move_candidates_fifo_in_range_order_witness:
  "latest_candidates (example_orders [''x/a.md'', ''a.md'', ''b/a.md''])
      [example_row 1 ''a.md'' ''h'' FileStatusCreated None,
       example_row 2 ''x/a.md'' ''h'' FileStatusCreated None]
      [''b/a.md'' \<mapsto> \<lparr>fr_Hash = ''#h'', fr_Content = ''h''\<rparr>] ''#h|a.md''
     = [\<lparr>Path = ''x/a.md'', Hash = ''#h'', Content = ''h'', Status = FileStatusCreated,
          PreviousPath = None\<rparr>,
        \<lparr>Path = ''a.md'', Hash = ''#h'', Content = ''h'', Status = FileStatusCreated,
          PreviousPath = None\<rparr>] \<and>
   (\<exists>s'. CaptureFileHistory example_clock example_hash
           (example_fs [(''b'', FsDir [(''a.md'', FsFile (Inr ''h''))] None)])
           (example_orders [''x/a.md'', ''a.md'', ''b/a.md''])
           \<lparr>db = Some [example_row 1 ''a.md'' ''h'' FileStatusCreated None,
                       example_row 2 ''x/a.md'' ''h'' FileStatusCreated None]\<rparr> ''/data''
         = Inr s' \<and>
     map inserted_columns (filter (\<lambda>r. fh_path r = ''b/a.md'')
        (new_entries \<lparr>db = Some [example_row 1 ''a.md'' ''h'' FileStatusCreated None,
                                 example_row 2 ''x/a.md'' ''h'' FileStatusCreated None]\<rparr> s'))
       = [(''b/a.md'', ''#h'', ''h'', FileStatusMoved, Some ''x/a.md'')])"
proof -
  define rows where "rows = [example_row 1 ''a.md'' ''h'' FileStatusCreated None,
       example_row 2 ''x/a.md'' ''h'' FileStatusCreated None]"
  define fr where "fr = \<lparr>fr_Hash = ''#h'', fr_Content = ''h''\<rparr>"
  define ords where "ords = example_orders [''x/a.md'', ''a.md'', ''b/a.md'']"
  have h1: "db \<lparr>db = Some rows\<rparr> = Some rows" by simp
  have h2: "scanMarkdownFiles example_hash
        (example_fs [(''b'', FsDir [(''a.md'', FsFile (Inr ''h''))] None)]) ''/data''
      = ([''b/a.md'' \<mapsto> fr], None)" by (simp add: eval_defs fr_def)
  have h3: "range_order [''b/a.md'' \<mapsto> fr] (ord_current ords)"
    by (simp add: eval_defs ords_def)
  have np: "new_paths ords rows [''b/a.md'' \<mapsto> fr] ''#h|a.md'' = [(''b/a.md'', fr)]"
    by (simp add: new_paths_def is_new_def eval_defs ords_def rows_def fr_def)
  have lc: "latest_candidates ords rows [''b/a.md'' \<mapsto> fr] ''#h|a.md''
     = [\<lparr>Path = ''x/a.md'', Hash = ''#h'', Content = ''h'', Status = FileStatusCreated,
          PreviousPath = None\<rparr>,
        \<lparr>Path = ''a.md'', Hash = ''#h'', Content = ''h'', Status = FileStatusCreated,
          PreviousPath = None\<rparr>]"
    by (simp add: latest_candidates_def is_cand_def eval_defs ords_def rows_def fr_def)
  have h4: "0 < length (new_paths ords rows [''b/a.md'' \<mapsto> fr] ''#h|a.md'')" by (simp add: np)
  have h5: "0 < length (latest_candidates ords rows [''b/a.md'' \<mapsto> fr] ''#h|a.md'')"
    by (simp add: lc)
  have h6: "new_paths ords rows [''b/a.md'' \<mapsto> fr] ''#h|a.md'' ! 0 = (''b/a.md'', fr)"
    by (simp add: np)
  from move_candidates_fifo_in_range_order[OF h1 h2 h3 h4 h5 h6, of example_clock] lc
  show ?thesis unfolding rows_def fr_def ords_def by auto
qed

text \<open>The claim as it stands fails: with \<open>x/a.md\<close> reached before \<open>a.md\<close> in the second
  loop, the new path \<open>b/a.md\<close> is recorded as moved from \<open>x/a.md\<close>, whose entry (id 2) was
  recorded after the entry of \<open>a.md\<close> (id 1), and \<open>a.md\<close> is recorded as deleted.\<close>

theorem earliest_recorded_candidate_counterexample:
  "CaptureFileHistory example_clock example_hash
      (example_fs [(''b'', FsDir [(''a.md'', FsFile (Inr ''h''))] None)])
      (example_orders [''x/a.md'', ''a.md'', ''b/a.md''])
      \<lparr>db = Some [example_row 1 ''a.md'' ''h'' FileStatusCreated None,
                  example_row 2 ''x/a.md'' ''h'' FileStatusCreated None]\<rparr> ''/data''
     = Inr \<lparr>db = Some [example_row 1 ''a.md'' ''h'' FileStatusCreated None,
                       example_row 2 ''x/a.md'' ''h'' FileStatusCreated None,
                       example_row 3 ''b/a.md'' ''h'' FileStatusMoved (Some ''x/a.md''),
                       example_row 4 ''a.md'' ''h'' FileStatusDeleted None]\<rparr> \<and>
   map Path (latest_candidates (example_orders [''x/a.md'', ''a.md'', ''b/a.md''])
      [example_row 1 ''a.md'' ''h'' FileStatusCreated None,
       example_row 2 ''x/a.md'' ''h'' FileStatusCreated None]
      [''b/a.md'' \<mapsto> \<lparr>fr_Hash = ''#h'', fr_Content = ''h''\<rparr>] ''#h|a.md'')
     = [''x/a.md'', ''a.md''] \<and>
   fh_id (example_row 1 ''a.md'' ''h'' FileStatusCreated None)
     < fh_id (example_row 2 ''x/a.md'' ''h'' FileStatusCreated None)"
  by (simp add: latest_candidates_def is_cand_def eval_defs)

text \<open>
  Claim C1, amended. Let \<open>p\<close> be a deletion candidate (latest entry not \<open>deleted\<close>, absent
  from the snapshot, not an alias path) and \<open>q\<close> a never-seen path of the snapshot with the
  hash of \<open>p\<close>'s latest entry and the base name of \<open>p\<close>. If \<open>p\<close> is the only deletion candidate
  with that movement key and \<open>q\<close> the only never-seen path with it, the pass appends exactly
  one row for \<open>q\<close>, \<open>moved\<close> with previous path \<open>p\<close>, and no row for \<open>p\<close>.
\<close>

theorem sole_candidate_is_moved:
  assumes "db s = Some rows"
    and "scanMarkdownFiles hashBytes fs dataDir = (currentFiles, err)"
    and "range_order currentFiles (ord_current ords)"
    and "range_order (latestFileSnapshots rows) (ord_latest ords)"
    and p: "latestFileSnapshots rows p = Some snap" "Status snap \<noteq> FileStatusDeleted"
      "currentFiles p = None" "p \<notin> aliasPaths_of (latestFileSnapshots rows) (ord_alias ords)"
    and q: "currentFiles q = Some file" "latestFileSnapshots rows q = None"
      "fr_Hash file = Hash snap" "filepath_Base q = filepath_Base p"
    and only_p: "\<forall>p' snap'. latestFileSnapshots rows p' = Some snap' \<and>
        Status snap' \<noteq> FileStatusDeleted \<and> currentFiles p' = None \<and>
        p' \<notin> aliasPaths_of (latestFileSnapshots rows) (ord_alias ords) \<and>
        movementKey (Hash snap') p' = movementKey (Hash snap) p \<longrightarrow> p' = p"
    and only_q: "\<forall>q' file'. currentFiles q' = Some file' \<and> latestFileSnapshots rows q' = None \<and>
        movementKey (fr_Hash file') q' = movementKey (Hash snap) p \<longrightarrow> q' = q"
  shows "\<exists>s'. CaptureFileHistory clock hashBytes fs ords s dataDir = Inr s' \<and>
     db s' = Some (rows @ new_entries s s') \<and>
     map inserted_columns (filter (\<lambda>r. fh_path r = q) (new_entries s s'))
       = [(q, fr_Hash file, fr_Content file, FileStatusMoved, Some p)] \<and>
     filter (\<lambda>r. fh_path r = p) (new_entries s s') = []"
proof -
  define L where "L = latestFileSnapshots rows"
  define A where "A = aliasPaths_of L (ord_alias ords)"
  define K where "K = movementKey (Hash snap) p"
  define kv2 where "kv2 = go_range L (ord_latest ords)"
  have Kq: "movementKey (fr_Hash file) q = K"
    using q(3,4) by (simp add: K_def movementKey_def)
  from CaptureFileHistory_current[OF assms(1-3) q(1), of clock] obtain s' xs ys where
    c: "go_range currentFiles (ord_current ords) = xs @ (q, file) # ys"
       "q \<notin> fst ` set xs"
       "CaptureFileHistory clock hashBytes fs ords s dataDir = Inr s'"
       "db s' = Some (rows @ new_entries s s')"
       "map inserted_columns (filter (\<lambda>r. fh_path r = q) (new_entries s s'))
         = (case classify L (candidates_left ords rows currentFiles xs) q file of
              None \<Rightarrow> []
            | Some (status, prev) \<Rightarrow> [(q, fr_Hash file, fr_Content file, status, prev)])"
       "\<forall>prev rest. L q = None \<longrightarrow>
          candidates_left ords rows currentFiles xs (movementKey (fr_Hash file) q) = prev # rest \<longrightarrow>
          (\<forall>r \<in> set (new_entries s s'). fh_path r \<noteq> Path prev)"
    unfolding L_def by (elim exE conjE)
  have "filter (is_new L K) xs = []"
  proof (rule ccontr)
    assume "filter (is_new L K) xs \<noteq> []"
    then obtain kv where kv: "kv \<in> set xs" "is_new L K kv"
      by (auto simp: filter_empty_conv)
    from kv(1) c(1) have "kv \<in> set (go_range currentFiles (ord_current ords))" by simp
    from go_range_value[OF this] have "currentFiles (fst kv) = Some (snd kv)" .
    with kv(2) only_q have "fst kv = q" by (simp add: is_new_def L_def K_def)
    with kv(1) c(2) show False by (auto simp: image_iff)
  qed
  then have left: "candidates_left ords rows currentFiles xs K = latest_candidates ords rows currentFiles K"
    by (simp add: candidates_left_def L_def)
  have lc: "latest_candidates ords rows currentFiles K = map snd (filter (is_cand A currentFiles K) kv2)"
    by (simp add: latest_candidates_def A_def L_def kv2_def)
  from range_order_mem[OF assms(4) p(1)] have "(p, snap) \<in> set kv2" by (simp add: kv2_def L_def)
  moreover have "is_cand A currentFiles K (p, snap)"
    using p(2-4) by (simp add: is_cand_def A_def L_def K_def)
  ultimately have "(p, snap) \<in> set (filter (is_cand A currentFiles K) kv2)" by simp
  then have "snd (p, snap) \<in> snd ` set (filter (is_cand A currentFiles K) kv2)" by (rule imageI)
  then have "snap \<in> set (latest_candidates ords rows currentFiles K)"
    unfolding lc by simp
  then obtain prev rest where pr: "latest_candidates ords rows currentFiles K = prev # rest"
    by (cases "latest_candidates ords rows currentFiles K") auto
  then have "prev \<in> set (map snd (filter (is_cand A currentFiles K) kv2))" unfolding lc by simp
  then obtain k where k: "(k, prev) \<in> set kv2" "is_cand A currentFiles K (k, prev)"
    by (auto simp: image_iff)
  from k(1) have Lk: "L k = Some prev" by (simp add: kv2_def in_go_range)
  with k(2) only_p have "k = p" by (simp add: is_cand_def A_def L_def K_def)
  with latest_Path[of rows k prev] Lk have prev: "Path prev = p" by (simp add: L_def)
  from q(2) have Lq: "L q = None" by (simp add: L_def)
  have "classify L (candidates_left ords rows currentFiles xs) q file = Some (FileStatusMoved, Some p)"
    by (simp add: classify_def Lq Kq left pr prev)
  with c(5) have moved: "map inserted_columns (filter (\<lambda>r. fh_path r = q) (new_entries s s'))
       = [(q, fr_Hash file, fr_Content file, FileStatusMoved, Some p)]" by simp
  from c(6) Lq left pr prev have "\<forall>r \<in> set (new_entries s s'). fh_path r \<noteq> p"
    by (simp add: Kq)
  then have "filter (\<lambda>r. fh_path r = p) (new_entries s s') = []"
    by (simp add: filter_empty_conv)
  with c(3,4) moved show ?thesis by (intro exI[of _ s'] conjI)
qed

theorem sole_candidate_is_moved_witness:
  "latestFileSnapshots [example_row 1 ''a.md'' ''h'' FileStatusCreated None] ''a.md''
     = Some \<lparr>Path = ''a.md'', Hash = ''#h'', Content = ''h'', Status = FileStatusCreated,
              PreviousPath = None\<rparr> \<and>
   (\<exists>s'. CaptureFileHistory example_clock example_hash
           (example_fs [(''b'', FsDir [(''a.md'', FsFile (Inr ''h''))] None)])
           (example_orders [''a.md'', ''b/a.md''])
           \<lparr>db = Some [example_row 1 ''a.md'' ''h'' FileStatusCreated None]\<rparr> ''/data''
         = Inr s' \<and>
     map inserted_columns (filter (\<lambda>r. fh_path r = ''b/a.md'')
        (new_entries \<lparr>db = Some [example_row 1 ''a.md'' ''h'' FileStatusCreated None]\<rparr> s'))
       = [(''b/a.md'', ''#h'', ''h'', FileStatusMoved, Some ''a.md'')] \<and>
     filter (\<lambda>r. fh_path r = ''a.md'')
        (new_entries \<lparr>db = Some [example_row 1 ''a.md'' ''h'' FileStatusCreated None]\<rparr> s') = [])"
proof -
  define rows where "rows = [example_row 1 ''a.md'' ''h'' FileStatusCreated None]"
  define fr where "fr = \<lparr>fr_Hash = ''#h'', fr_Content = ''h''\<rparr>"
  define snap where "snap = \<lparr>Path = ''a.md'', Hash = ''#h'', Content = ''h'',
      Status = FileStatusCreated, PreviousPath = None\<rparr>"
  define ords where "ords = example_orders [''a.md'', ''b/a.md'']"
  have L: "latestFileSnapshots rows = [''a.md'' \<mapsto> snap]"
    by (simp add: eval_defs rows_def snap_def)
  have A: "aliasPaths_of [''a.md'' \<mapsto> snap] (ord_alias ords) = {}"
    by (simp add: eval_defs ords_def snap_def)
  have h1: "db \<lparr>db = Some rows\<rparr> = Some rows" by simp
  have h2: "scanMarkdownFiles example_hash
        (example_fs [(''b'', FsDir [(''a.md'', FsFile (Inr ''h''))] None)]) ''/data''
      = ([''b/a.md'' \<mapsto> fr], None)" by (simp add: eval_defs fr_def)
  have h3: "range_order [''b/a.md'' \<mapsto> fr] (ord_current ords)"
    by (simp add: eval_defs ords_def)
  have h4: "range_order (latestFileSnapshots rows) (ord_latest ords)"
    by (simp add: L) (simp add: eval_defs ords_def)
  have p1: "latestFileSnapshots rows ''a.md'' = Some snap" by (simp add: L)
  have p2: "Status snap \<noteq> FileStatusDeleted" by (simp add: snap_def)
  have p3: "[''b/a.md'' \<mapsto> fr] ''a.md'' = None" by simp
  have p4: "''a.md'' \<notin> aliasPaths_of (latestFileSnapshots rows) (ord_alias ords)"
    by (simp add: L A)
  have q1: "[''b/a.md'' \<mapsto> fr] ''b/a.md'' = Some fr" by simp
  have q2: "latestFileSnapshots rows ''b/a.md'' = None" by (simp add: L)
  have q3: "fr_Hash fr = Hash snap" by (simp add: fr_def snap_def)
  have q4: "filepath_Base ''b/a.md'' = filepath_Base ''a.md''" by (simp add: eval_defs)
  have only_p: "\<forall>p' snap'. latestFileSnapshots rows p' = Some snap' \<and>
        Status snap' \<noteq> FileStatusDeleted \<and> [''b/a.md'' \<mapsto> fr] p' = None \<and>
        p' \<notin> aliasPaths_of (latestFileSnapshots rows) (ord_alias ords) \<and>
        movementKey (Hash snap') p' = movementKey (Hash snap) ''a.md'' \<longrightarrow> p' = ''a.md''"
    by (auto simp: L split: if_splits)
  have only_q: "\<forall>q' file'. [''b/a.md'' \<mapsto> fr] q' = Some file' \<and>
        latestFileSnapshots rows q' = None \<and>
        movementKey (fr_Hash file') q' = movementKey (Hash snap) ''a.md'' \<longrightarrow> q' = ''b/a.md''"
    by (auto split: if_splits)
  from sole_candidate_is_moved[OF h1 h2 h3 h4 p1 p2 p3 p4 q1 q2 q3 q4 only_p only_q, of example_clock] p1
  show ?thesis unfolding rows_def fr_def snap_def ords_def by auto
qed

text \<open>The claim as it stands fails: \<open>x/a.md\<close> is a deletion candidate and \<open>b/a.md\<close> a
  never-seen path with its hash and base name, but \<open>a.md\<close> is a candidate with the same
  movement key and is reached first. \<open>b/a.md\<close> is recorded as moved from \<open>a.md\<close>, and
  \<open>x/a.md\<close> as deleted.\<close>

theorem moved_from_other_candidate_counterexample:
  "latestFileSnapshots
      [example_row 1 ''a.md'' ''h'' FileStatusCreated None,
       example_row 2 ''x/a.md'' ''h'' FileStatusCreated None] ''x/a.md''
     = Some \<lparr>Path = ''x/a.md'', Hash = ''#h'', Content = ''h'', Status = FileStatusCreated,
              PreviousPath = None\<rparr> \<and>
   ''x/a.md'' \<notin> aliasPaths_of (latestFileSnapshots
      [example_row 1 ''a.md'' ''h'' FileStatusCreated None,
       example_row 2 ''x/a.md'' ''h'' FileStatusCreated None])
      (ord_alias (example_orders [''a.md'', ''x/a.md'', ''b/a.md''])) \<and>
   scanMarkdownFiles example_hash
      (example_fs [(''b'', FsDir [(''a.md'', FsFile (Inr ''h''))] None)]) ''/data''
     = ([''b/a.md'' \<mapsto> \<lparr>fr_Hash = ''#h'', fr_Content = ''h''\<rparr>], None) \<and>
   latestFileSnapshots
      [example_row 1 ''a.md'' ''h'' FileStatusCreated None,
       example_row 2 ''x/a.md'' ''h'' FileStatusCreated None] ''b/a.md'' = None \<and>
   filepath_Base ''b/a.md'' = filepath_Base ''x/a.md'' \<and>
   CaptureFileHistory example_clock example_hash
      (example_fs [(''b'', FsDir [(''a.md'', FsFile (Inr ''h''))] None)])
      (example_orders [''a.md'', ''x/a.md'', ''b/a.md''])
      \<lparr>db = Some [example_row 1 ''a.md'' ''h'' FileStatusCreated None,
                  example_row 2 ''x/a.md'' ''h'' FileStatusCreated None]\<rparr> ''/data''
     = Inr \<lparr>db = Some [example_row 1 ''a.md'' ''h'' FileStatusCreated None,
                       example_row 2 ''x/a.md'' ''h'' FileStatusCreated None,
                       example_row 3 ''b/a.md'' ''h'' FileStatusMoved (Some ''a.md''),
                       example_row 4 ''x/a.md'' ''h'' FileStatusDeleted None]\<rparr>"
  by (simp add: eval_defs)

section \<open>The scanner on a missing root\<close>

text \<open>
  Claim C8. When \<^verbatim>\<open>os.Lstat\<close> of the root reports that it does not exist,
  \<^verbatim>\<open>scanMarkdownFiles\<close> returns the empty map and no error, and \<^verbatim>\<open>CaptureFileHistory\<close>
  on an open database succeeds: it runs the pass against the empty snapshot. (On a closed
  database it returns \<^verbatim>\<open>sql.ErrConnDone\<close> before it looks at the root.)
\<close>

theorem scanMarkdownFiles_missing_root:
  assumes "fs dataDir = Inl ErrNotExist" and "db s = Some rows"
  shows "scanMarkdownFiles hashBytes fs dataDir = (Map.empty, None) \<and>
         CaptureFileHistory clock hashBytes fs ords s dataDir
           = Inr (s\<lparr>db := Some (reconcile clock ords rows Map.empty)\<rparr>)"
proof -
  have scan: "scanMarkdownFiles hashBytes fs dataDir = (Map.empty, None)"
    using assms(1)
    by (simp add: scanMarkdownFiles_def filepath_WalkDir_def walk_fn_def os_IsNotExist_def)
  with assms(2) show ?thesis by (simp add: CaptureFileHistory_def)
qed

theorem scanMarkdownFiles_missing_root_witness:
  "example_fs [] ''/nodata'' = Inl ErrNotExist \<and>
   scanMarkdownFiles example_hash (example_fs []) ''/nodata'' = (Map.empty, None) \<and>
   CaptureFileHistory example_clock example_hash (example_fs []) (example_orders [''a.md''])
       \<lparr>db = Some [example_row 1 ''a.md'' ''one'' FileStatusCreated None]\<rparr> ''/nodata''
     = Inr \<lparr>db = Some [example_row 1 ''a.md'' ''one'' FileStatusCreated None,
                       example_row 2 ''a.md'' ''one'' FileStatusDeleted None]\<rparr>"
proof -
  have h1: "example_fs [] ''/nodata'' = Inl ErrNotExist" by (simp add: example_fs_def)
  have h2: "db \<lparr>db = Some [example_row 1 ''a.md'' ''one'' FileStatusCreated None]\<rparr>
      = Some [example_row 1 ''a.md'' ''one'' FileStatusCreated None]" by simp
  from scanMarkdownFiles_missing_root[where fs = "example_fs []" and dataDir = "''/nodata''"
      and hashBytes = example_hash and clock = example_clock
      and ords = "example_orders [''a.md'']", OF h1 h2] h1
  show ?thesis by (simp add: eval_defs)
qed

section \<open>Stored timestamps\<close>

text \<open>
  Claim C9. \<^verbatim>\<open>time.Parse\<close> is a parameter. For a stored text that is not empty,
  \<^verbatim>\<open>parseSQLiteTimestamp\<close> returns the time \<^verbatim>\<open>time.Parse\<close> reads from it under the first
  of the three layouts that accepts it: RFC 3339 with fractional seconds and offset, then
  date and time separated by a space with an offset, then the same without offset. (Each
  layout of Go rejects a text written in one of the other two.)
\<close>

theorem parseSQLiteTimestamp_three_layouts:
  assumes "value \<noteq> []"
  shows "(time_Parse ''2006-01-02T15:04:05.999999999Z07:00'' value = Some ts \<longrightarrow>
            parseSQLiteTimestamp time_Parse value = ts) \<and>
         (time_Parse ''2006-01-02T15:04:05.999999999Z07:00'' value = None \<and>
          time_Parse ''2006-01-02 15:04:05Z07:00'' value = Some ts \<longrightarrow>
            parseSQLiteTimestamp time_Parse value = ts) \<and>
         (time_Parse ''2006-01-02T15:04:05.999999999Z07:00'' value = None \<and>
          time_Parse ''2006-01-02 15:04:05Z07:00'' value = None \<and>
          time_Parse ''2006-01-02 15:04:05'' value = Some ts \<longrightarrow>
            parseSQLiteTimestamp time_Parse value = ts)"
  using assms by (simp add: parseSQLiteTimestamp_def layouts_def RFC3339Nano_def)

theorem parseSQLiteTimestamp_three_layouts_witness:
  "''2024-01-01 00:00:00'' \<noteq> [] \<and>
   example_time_Parse ''2006-01-02T15:04:05.999999999Z07:00'' ''2024-01-01 00:00:00'' = None \<and>
   example_time_Parse ''2006-01-02 15:04:05Z07:00'' ''2024-01-01 00:00:00'' = None \<and>
   example_time_Parse ''2006-01-02 15:04:05'' ''2024-01-01 00:00:00'' = Some 63839664000000000000 \<and>
   parseSQLiteTimestamp example_time_Parse ''2024-01-01 00:00:00'' = 63839664000000000000"
proof -
  have h: "''2024-01-01 00:00:00'' \<noteq> []" by simp
  have p1: "example_time_Parse ''2006-01-02T15:04:05.999999999Z07:00'' ''2024-01-01 00:00:00'' = None"
    and p2: "example_time_Parse ''2006-01-02 15:04:05Z07:00'' ''2024-01-01 00:00:00'' = None"
    and p3: "example_time_Parse ''2006-01-02 15:04:05'' ''2024-01-01 00:00:00''
              = Some 63839664000000000000"
    by (simp_all add: example_time_Parse_def)
  from parseSQLiteTimestamp_three_layouts[OF h, of example_time_Parse 63839664000000000000] p1 p2 p3
  show ?thesis by simp
qed

section \<open>Sorting the collected entries\<close>

lemma entry_less_iff:
  "entry_less a b \<longleftrightarrow> RecordedAt b < RecordedAt a \<or> (RecordedAt a = RecordedAt b \<and> ID b < ID a)"
  by (auto simp: entry_less_def)

lemma entry_less_trans: "entry_less a b \<Longrightarrow> entry_less b c \<Longrightarrow> entry_less a c"
  unfolding entry_less_iff by auto

lemma entry_less_total: "ID a \<noteq> ID b \<Longrightarrow> \<not> entry_less a b \<Longrightarrow> entry_less b a"
  unfolding entry_less_iff by auto

lemma entry_less_asym: "entry_less a b \<Longrightarrow> \<not> entry_less b a"
  unfolding entry_less_iff by auto

lemma mset_insert_by: "mset (insert_by lt x ys) = add_mset x (mset ys)"
  by (induction ys) auto

lemma mset_sort_Slice: "mset (sort_Slice lt xs) = mset xs"
  unfolding sort_Slice_def by (induction xs) (simp_all add: mset_insert_by)

lemma sorted_insert_by:
  assumes "sorted_wrt entry_less ys" "ID x \<notin> ID ` set ys"
  shows "sorted_wrt entry_less (insert_by entry_less x ys)"
  using assms
proof (induction ys)
  case Nil
  show ?case by simp
next
  case (Cons y ys)
  show ?case
  proof (cases "entry_less x y")
    case True
    have "entry_less x z" if "z \<in> set ys" for z
    proof -
      from Cons.prems(1) that have "entry_less y z" by simp
      with True show ?thesis by (rule entry_less_trans)
    qed
    with True Cons.prems(1) show ?thesis by simp
  next
    case False
    from Cons.prems(2) have "ID y \<noteq> ID x" by auto
    from entry_less_total[OF this[symmetric] False] have yx: "entry_less y x" .
    from Cons.prems have "sorted_wrt entry_less (insert_by entry_less x ys)"
      by (intro Cons.IH) auto
    with False yx Cons.prems(1) show ?thesis by (simp add: set_insert_by)
  qed
qed

lemma sorted_sort_Slice:
  "distinct (map ID xs) \<Longrightarrow> sorted_wrt entry_less (sort_Slice entry_less xs)"
proof (induction xs)
  case Nil
  show ?case by (simp add: sort_Slice_def)
next
  case (Cons x xs)
  then have "sorted_wrt entry_less (sort_Slice entry_less xs)" by simp
  moreover from Cons.prems have "ID x \<notin> ID ` set (sort_Slice entry_less xs)"
    by (simp add: set_sort_Slice)
  ultimately have "sorted_wrt entry_less (insert_by entry_less x (sort_Slice entry_less xs))"
    by (rule sorted_insert_by)
  then show ?case by (simp add: sort_Slice_def)
qed

lemma sorted_entry_less_unique:
  assumes "sorted_wrt entry_less xs" "sorted_wrt entry_less ys" "set xs = set ys"
  shows "xs = ys"
  using assms
proof (induction xs arbitrary: ys)
  case Nil
  then show ?case by simp
next
  case (Cons x xs)
  from Cons.prems(3) obtain y ys' where ys: "ys = y # ys'" by (cases ys) auto
  have xy: "x = y"
  proof (rule ccontr)
    assume ne: "x \<noteq> y"
    with Cons.prems(3) ys have "x \<in> set ys'" and "y \<in> set xs" by auto
    with Cons.prems(1,2) ys have "entry_less y x" "entry_less x y" by auto
    with entry_less_asym show False by blast
  qed
  from Cons.prems(1) entry_less_asym have "x \<notin> set xs" by auto
  moreover from Cons.prems(2) ys entry_less_asym have "y \<notin> set ys'" by auto
  ultimately have "set xs = set ys'" using Cons.prems(3) ys xy by auto
  with Cons.IH[of ys'] Cons.prems(1,2) ys have "xs = ys'" by simp
  with xy ys show ?case by simp
qed

section \<open>The collected entries have distinct ids\<close>

lemma row_step_ids:
  assumes "distinct (map ID entries)" "ID ` set entries \<subseteq> seenIDs"
    "row_step time_Parse visited (queue, seenIDs, entries) fh = (queue1, seenIDs1, entries1)"
  shows "distinct (map ID entries1) \<and> ID ` set entries1 \<subseteq> seenIDs1"
proof (cases "fh_id fh \<in> seenIDs")
  case True
  with assms(3) have "entries1 = entries" "seenIDs1 = seenIDs"
    by (simp_all add: row_step_def Let_def)
  with assms(1,2) show ?thesis by simp
next
  case False
  with assms(3) have e: "entries1 = entries @ [scan_entry time_Parse fh]"
    and s: "seenIDs1 = insert (fh_id fh) seenIDs"
    by (simp_all add: row_step_def Let_def)
  have "ID (scan_entry time_Parse fh) = fh_id fh" by (simp add: scan_entry_def)
  with False assms(1,2) show ?thesis unfolding e s by auto
qed

lemma foldl_row_step_ids:
  assumes "distinct (map ID entries)" "ID ` set entries \<subseteq> seenIDs"
    "foldl (row_step time_Parse visited) (queue, seenIDs, entries) rs = (queue1, seenIDs1, entries1)"
  shows "distinct (map ID entries1) \<and> ID ` set entries1 \<subseteq> seenIDs1"
  using assms
proof (induction rs arbitrary: queue seenIDs entries)
  case Nil
  then show ?case by simp
next
  case (Cons fh rs)
  obtain q2 s2 e2 where step: "row_step time_Parse visited (queue, seenIDs, entries) fh = (q2, s2, e2)"
    by (cases "row_step time_Parse visited (queue, seenIDs, entries) fh") auto
  from row_step_ids[OF Cons.prems(1,2) step]
  have inv: "distinct (map ID e2)" "ID ` set e2 \<subseteq> s2" by simp_all
  from Cons.prems(3) step
  have "foldl (row_step time_Parse visited) (q2, s2, e2) rs = (queue1, seenIDs1, entries1)" by simp
  from Cons.IH[OF inv this] show ?case .
qed

lemma history_loop_ids:
  "distinct (map ID entries) \<Longrightarrow> ID ` set entries \<subseteq> seenIDs \<Longrightarrow>
   distinct (map ID (history_loop time_Parse rows visited queue seenIDs entries))"
proof (induction time_Parse rows visited queue seenIDs entries rule: history_loop.induct)
  case (1 time_Parse rows visited seenIDs entries)
  then show ?case by simp
next
  case (2 time_Parse rows visited current queue seenIDs entries)
  show ?case
  proof (cases "current \<in> visited")
    case True
    with 2 show ?thesis by simp
  next
    case False
    obtain q1 s1 e1 where fold:
      "foldl (row_step time_Parse (insert current visited)) (queue, seenIDs, entries)
         (history_query rows current) = (q1, s1, e1)"
      by (cases "foldl (row_step time_Parse (insert current visited)) (queue, seenIDs, entries)
         (history_query rows current)") auto
    from foldl_row_step_ids[OF "2.prems" fold]
    have inv: "distinct (map ID e1)" "ID ` set e1 \<subseteq> s1" by simp_all
    from "2.IH"(2)[OF False fold[symmetric] refl inv] False fold show ?thesis by simp
  qed
qed

lemma GetHistoryForPath_sorted_general:
  assumes "db s = Some rows"
  shows "\<exists>es. GetHistoryForPath time_Parse s path = Inr es \<and>
           sorted_wrt entry_less es \<and>
           mset es = mset (history_loop time_Parse rows {} (seedHistoryPaths path) {} [])"
proof -
  have "distinct (map ID (history_loop time_Parse rows {} (seedHistoryPaths path) {} []))"
    by (rule history_loop_ids) simp_all
  from sorted_sort_Slice[OF this] assms show ?thesis
    by (simp add: GetHistoryForPath_def mset_sort_Slice)
qed

section \<open>The lifecycle, pass by pass\<close>

lemma go_range_empty: "go_range Map.empty ord = []"
  by (induction ord) (simp_all add: go_range_Nil go_range_Cons)

lemma go_range_cong:
  "(\<And>k. k \<in> set ord \<Longrightarrow> m k = m' k) \<Longrightarrow> go_range m ord = go_range m' ord"
proof (induction ord)
  case Nil
  show ?case by (simp add: go_range_Nil)
next
  case (Cons a ord)
  have 1: "m a = m' a" using Cons.prems by simp
  have 2: "go_range m ord = go_range m' ord" using Cons by simp
  show ?case unfolding go_range_Cons 1 2 ..
qed

lemma go_range_absent: "(\<And>k. k \<in> set ord \<Longrightarrow> m k = None) \<Longrightarrow> go_range m ord = []"
proof (induction ord)
  case Nil
  show ?case by (simp add: go_range_Nil)
next
  case (Cons a ord)
  have 1: "m a = None" using Cons.prems by simp
  have 2: "go_range m ord = []" using Cons by simp
  show ?case unfolding go_range_Cons 1 2 by simp
qed

lemma go_range_single:
  "distinct ord \<Longrightarrow> k \<in> set ord \<Longrightarrow> go_range (Map.empty(k \<mapsto> v)) ord = [(k, v)]"
proof (induction ord)
  case Nil
  then show ?case by simp
next
  case (Cons a ord)
  show ?case
  proof (cases "a = k")
    case True
    with Cons.prems have "k \<notin> set ord" by simp
    then have 2: "go_range (Map.empty(k \<mapsto> v)) ord = []" by (intro go_range_absent) auto
    have 1: "(Map.empty(k \<mapsto> v)) k = Some v" by simp
    show ?thesis unfolding True go_range_Cons 1 2 by simp
  next
    case False
    from Cons.prems have d: "distinct ord" by simp
    from Cons.prems False have kin: "k \<in> set ord" by auto
    note 2 = Cons.IH[OF d kin]
    from False have 1: "(Map.empty(k \<mapsto> v)) a = None" by simp
    show ?thesis unfolding go_range_Cons 1 2 by (simp only: option.case)
  qed
qed

lemma go_range_pair:
  assumes "distinct ord" "k1 \<in> set ord" "k2 \<in> set ord" "k1 \<noteq> k2"
  shows "go_range (Map.empty(k1 \<mapsto> v1, k2 \<mapsto> v2)) ord = [(k1, v1), (k2, v2)] \<or>
         go_range (Map.empty(k1 \<mapsto> v1, k2 \<mapsto> v2)) ord = [(k2, v2), (k1, v1)]"
  using assms
proof (induction ord)
  case Nil
  then show ?case by simp
next
  case (Cons a ord)
  consider "a = k1" | "a = k2" | "a \<noteq> k1" "a \<noteq> k2" by blast
  then show ?case
  proof cases
    case 1
    with Cons.prems have d: "distinct ord" "k2 \<in> set ord" "k1 \<notin> set ord" by auto
    have "go_range (Map.empty(k1 \<mapsto> v1, k2 \<mapsto> v2)) ord = go_range (Map.empty(k2 \<mapsto> v2)) ord"
      using d(3) by (intro go_range_cong) auto
    with go_range_single[OF d(1,2), of v2]
    have 2: "go_range (Map.empty(k1 \<mapsto> v1, k2 \<mapsto> v2)) ord = [(k2, v2)]" by simp
    from Cons.prems(4) have 3: "(Map.empty(k1 \<mapsto> v1, k2 \<mapsto> v2)) k1 = Some v1" by simp
    show ?thesis unfolding 1 go_range_Cons 2 3 by simp
  next
    case 2
    with Cons.prems have d: "distinct ord" "k1 \<in> set ord" "k2 \<notin> set ord" by auto
    have "go_range (Map.empty(k1 \<mapsto> v1, k2 \<mapsto> v2)) ord = go_range (Map.empty(k1 \<mapsto> v1)) ord"
      using d(3) by (intro go_range_cong) auto
    with go_range_single[OF d(1,2), of v1]
    have 4: "go_range (Map.empty(k1 \<mapsto> v1, k2 \<mapsto> v2)) ord = [(k1, v1)]" by simp
    have 3: "(Map.empty(k1 \<mapsto> v1, k2 \<mapsto> v2)) k2 = Some v2" by simp
    show ?thesis unfolding 2 go_range_Cons 4 3 by simp
  next
    case 3
    with Cons.prems have d: "distinct ord" "k1 \<in> set ord" "k2 \<in> set ord" by auto
    from 3 have n: "(Map.empty(k1 \<mapsto> v1, k2 \<mapsto> v2)) a = None" by simp
    from Cons.IH[OF d Cons.prems(4)] show ?thesis unfolding go_range_Cons n
      by (simp only: option.case)
  qed
qed

lemmas pass_defs = CaptureFileHistory_def scanMarkdownFiles_def filepath_WalkDir_def walk_fn_def
  filepath_Ext_def filepath_Base_def filepath_Rel_def filepath_ToSlash_def os_IsNotExist_def
  reconcile_def latestFileSnapshots_def latest_join_def latest_cte_def scan_row_def scan_snapshot_def
  aliasPaths_of_def alias_step_def missing_step_def current_step_def deleted_step_def
  insertHistoryEntry_def next_id_def movementKey_def Separator_def Let_def stored_row_def

lemma lifecycle_create:
  assumes "fs dataDir = Inr (FsDir [(''a.md'', FsFile (Inr c1))] None)"
    and "lifecycle_orders ords"
  shows "CaptureFileHistory clock hashBytes fs ords \<lparr>db = Some []\<rparr> dataDir
    = Inr \<lparr>db = Some [stored_row clock hashBytes 1 ''a.md'' c1 FileStatusCreated None]\<rparr>"
  using assms
  by (simp add: pass_defs lifecycle_orders_def lifecycle_order_def go_range_empty go_range_single)

lemma lifecycle_modify:
  assumes "fs dataDir = Inr (FsDir [(''a.md'', FsFile (Inr c2))] None)"
    and "lifecycle_orders ords" and "hashBytes c1 \<noteq> hashBytes c2"
  shows "CaptureFileHistory clock hashBytes fs ords
      \<lparr>db = Some [stored_row clock hashBytes 1 ''a.md'' c1 FileStatusCreated None]\<rparr> dataDir
    = Inr \<lparr>db = Some [stored_row clock hashBytes 1 ''a.md'' c1 FileStatusCreated None,
                      stored_row clock hashBytes 2 ''a.md'' c2 FileStatusModified None]\<rparr>"
  using assms
  by (simp add: pass_defs lifecycle_orders_def lifecycle_order_def go_range_empty go_range_single)

lemma lifecycle_move:
  assumes "fs dataDir = Inr (FsDir [(''b'', FsDir [(''a.md'', FsFile (Inr c2))] None)] None)"
    and "lifecycle_orders ords"
  shows "CaptureFileHistory clock hashBytes fs ords
      \<lparr>db = Some [stored_row clock hashBytes 1 ''a.md'' c1 FileStatusCreated None,
                  stored_row clock hashBytes 2 ''a.md'' c2 FileStatusModified None]\<rparr> dataDir
    = Inr \<lparr>db = Some [stored_row clock hashBytes 1 ''a.md'' c1 FileStatusCreated None,
                      stored_row clock hashBytes 2 ''a.md'' c2 FileStatusModified None,
                      stored_row clock hashBytes 3 ''b/a.md'' c2 FileStatusMoved (Some ''a.md'')]\<rparr>"
  using assms
  by (simp add: pass_defs lifecycle_orders_def lifecycle_order_def go_range_empty go_range_single)

lemma lifecycle_delete:
  assumes fs: "fs dataDir = Inr (FsDir [(''b'', FsDir [] None)] None)"
    and ords: "lifecycle_orders ords"
  shows "CaptureFileHistory clock hashBytes fs ords
      \<lparr>db = Some [stored_row clock hashBytes 1 ''a.md'' c1 FileStatusCreated None,
                  stored_row clock hashBytes 2 ''a.md'' c2 FileStatusModified None,
                  stored_row clock hashBytes 3 ''b/a.md'' c2 FileStatusMoved (Some ''a.md'')]\<rparr> dataDir
    = Inr \<lparr>db = Some [stored_row clock hashBytes 1 ''a.md'' c1 FileStatusCreated None,
                      stored_row clock hashBytes 2 ''a.md'' c2 FileStatusModified None,
                      stored_row clock hashBytes 3 ''b/a.md'' c2 FileStatusMoved (Some ''a.md''),
                      stored_row clock hashBytes 4 ''b/a.md'' c2 FileStatusDeleted None]\<rparr>"
proof -
  define S2 where "S2 = \<lparr>Path = ''a.md'', Hash = hashBytes c2, Content = c2,
      Status = FileStatusModified, PreviousPath = None\<rparr>"
  define S3 where "S3 = \<lparr>Path = ''b/a.md'', Hash = hashBytes c2, Content = c2,
      Status = FileStatusMoved, PreviousPath = Some ''a.md''\<rparr>"
  define rows where "rows = [stored_row clock hashBytes 1 ''a.md'' c1 FileStatusCreated None,
                  stored_row clock hashBytes 2 ''a.md'' c2 FileStatusModified None,
                  stored_row clock hashBytes 3 ''b/a.md'' c2 FileStatusMoved (Some ''a.md'')]"
  have L: "latestFileSnapshots rows = [''a.md'' \<mapsto> S2, ''b/a.md'' \<mapsto> S3]"
    by (simp add: rows_def S2_def S3_def latestFileSnapshots_def latest_join_def latest_cte_def
          scan_row_def scan_snapshot_def stored_row_def)
  have scan: "scanMarkdownFiles hashBytes fs dataDir = (Map.empty, None)"
    using fs by (simp add: scanMarkdownFiles_def filepath_WalkDir_def walk_fn_def os_IsNotExist_def)
  from ords have o: "lifecycle_order (ord_alias ords)" "lifecycle_order (ord_latest ords)"
    "lifecycle_order (ord_missing ords)" by (simp_all add: lifecycle_orders_def)
  have ne: "''a.md'' \<noteq> ''b/a.md''" by simp
  from o(1) have "distinct (ord_alias ords)" "''a.md'' \<in> set (ord_alias ords)"
    "''b/a.md'' \<in> set (ord_alias ords)" by (simp_all add: lifecycle_order_def)
  from go_range_pair[OF this ne, of S2 S3]
  have A: "aliasPaths_of [''a.md'' \<mapsto> S2, ''b/a.md'' \<mapsto> S3] (ord_alias ords) = {''a.md''}"
    unfolding aliasPaths_of_def
    by (elim disjE) (simp_all add: alias_step_def S2_def S3_def)
  from o(2) have "distinct (ord_latest ords)" "''a.md'' \<in> set (ord_latest ords)"
    "''b/a.md'' \<in> set (ord_latest ords)" by (simp_all add: lifecycle_order_def)
  from go_range_pair[OF this ne, of S2 S3]
  have M: "foldl (missing_step {''a.md''} Map.empty) (Map.empty, \<lambda>key. [])
             (go_range [''a.md'' \<mapsto> S2, ''b/a.md'' \<mapsto> S3] (ord_latest ords))
           = ([''b/a.md'' \<mapsto> S3], (\<lambda>key. [])(movementKey (Hash S3) ''b/a.md'' := [S3]))"
    by (elim disjE) (simp_all add: missing_step_def S2_def S3_def)
  from o(3) have m: "distinct (ord_missing ords)" "''b/a.md'' \<in> set (ord_missing ords)"
    by (simp_all add: lifecycle_order_def)
  have "reconcile clock ords rows Map.empty
      = rows @ [stored_row clock hashBytes 4 ''b/a.md'' c2 FileStatusDeleted None]"
    unfolding reconcile_def Let_def L A M
    by (simp add: go_range_empty go_range_single[OF m] deleted_step_def insertHistoryEntry_def
          next_id_def S3_def rows_def stored_row_def)
  then show ?thesis
    by (simp add: CaptureFileHistory_def scan rows_def)
qed

lemma lifecycle_table:
  assumes "lifecycle_files dataDir c1 c2 fs1 fs2 fs3 fs4"
    and "hashBytes c1 \<noteq> hashBytes c2"
    and "lifecycle_orders o1" "lifecycle_orders o2" "lifecycle_orders o3" "lifecycle_orders o4"
  shows "captures clock hashBytes dataDir [(fs1, o1), (fs2, o2), (fs3, o3), (fs4, o4)] \<lparr>db = Some []\<rparr>
    = Inr \<lparr>db = Some [stored_row clock hashBytes 1 ''a.md'' c1 FileStatusCreated None,
                      stored_row clock hashBytes 2 ''a.md'' c2 FileStatusModified None,
                      stored_row clock hashBytes 3 ''b/a.md'' c2 FileStatusMoved (Some ''a.md''),
                      stored_row clock hashBytes 4 ''b/a.md'' c2 FileStatusDeleted None]\<rparr>"
proof -
  from assms(1) have f: "fs1 dataDir = Inr (FsDir [(''a.md'', FsFile (Inr c1))] None)"
    "fs2 dataDir = Inr (FsDir [(''a.md'', FsFile (Inr c2))] None)"
    "fs3 dataDir = Inr (FsDir [(''b'', FsDir [(''a.md'', FsFile (Inr c2))] None)] None)"
    "fs4 dataDir = Inr (FsDir [(''b'', FsDir [] None)] None)"
    by (simp_all add: lifecycle_files_def)
  show ?thesis
    by (simp add: lifecycle_create[where fs = fs1 and dataDir = dataDir, OF f(1) assms(3)]
          lifecycle_modify[where fs = fs2 and dataDir = dataDir, OF f(2) assms(4) assms(2)]
          lifecycle_move[where fs = fs3 and dataDir = dataDir, OF f(3) assms(5)]
          lifecycle_delete[where fs = fs4 and dataDir = dataDir, OF f(4) assms(6)])
qed

lemma seed_file: "seedHistoryPaths ''b/a.md'' = [''b/a.md'']"
  by (simp add: seedHistoryPaths_def normalizeHistoryPath_def strings_TrimSpace_def
        strings_TrimLeft_slash_def filepath_ToSlash_def space_runes_def leading_space_def
        filepath_Ext_def Separator_def)

lemma lifecycle_collected:
  "set (history_loop time_Parse
      [stored_row clock hashBytes 1 ''a.md'' c1 FileStatusCreated None,
       stored_row clock hashBytes 2 ''a.md'' c2 FileStatusModified None,
       stored_row clock hashBytes 3 ''b/a.md'' c2 FileStatusMoved (Some ''a.md''),
       stored_row clock hashBytes 4 ''b/a.md'' c2 FileStatusDeleted None]
      {} [''b/a.md''] {} [])
   = set (map (scan_entry time_Parse)
      [stored_row clock hashBytes 4 ''b/a.md'' c2 FileStatusDeleted None,
       stored_row clock hashBytes 3 ''b/a.md'' c2 FileStatusMoved (Some ''a.md''),
       stored_row clock hashBytes 2 ''a.md'' c2 FileStatusModified None,
       stored_row clock hashBytes 1 ''a.md'' c1 FileStatusCreated None])"
  by (auto simp: history_query_def sort_Slice_def order_desc_def row_step_def stored_row_def Let_def)

lemma lifecycle_history:
  assumes "lifecycle_clock time_Parse clock"
  shows "GetHistoryForPath time_Parse
      \<lparr>db = Some [stored_row clock hashBytes 1 ''a.md'' c1 FileStatusCreated None,
                  stored_row clock hashBytes 2 ''a.md'' c2 FileStatusModified None,
                  stored_row clock hashBytes 3 ''b/a.md'' c2 FileStatusMoved (Some ''a.md''),
                  stored_row clock hashBytes 4 ''b/a.md'' c2 FileStatusDeleted None]\<rparr> ''b/a.md''
    = Inr (map (scan_entry time_Parse)
      [stored_row clock hashBytes 4 ''b/a.md'' c2 FileStatusDeleted None,
       stored_row clock hashBytes 3 ''b/a.md'' c2 FileStatusMoved (Some ''a.md''),
       stored_row clock hashBytes 2 ''a.md'' c2 FileStatusModified None,
       stored_row clock hashBytes 1 ''a.md'' c1 FileStatusCreated None])"
proof -
  define rows where "rows = [stored_row clock hashBytes 1 ''a.md'' c1 FileStatusCreated None,
                  stored_row clock hashBytes 2 ''a.md'' c2 FileStatusModified None,
                  stored_row clock hashBytes 3 ''b/a.md'' c2 FileStatusMoved (Some ''a.md''),
                  stored_row clock hashBytes 4 ''b/a.md'' c2 FileStatusDeleted None]"
  define expected where "expected = map (scan_entry time_Parse)
      [stored_row clock hashBytes 4 ''b/a.md'' c2 FileStatusDeleted None,
       stored_row clock hashBytes 3 ''b/a.md'' c2 FileStatusMoved (Some ''a.md''),
       stored_row clock hashBytes 2 ''a.md'' c2 FileStatusModified None,
       stored_row clock hashBytes 1 ''a.md'' c1 FileStatusCreated None]"
  define collected where "collected = history_loop time_Parse rows {} [''b/a.md''] {} []"
  have set: "set collected = set expected"
    unfolding collected_def rows_def expected_def by (rule lifecycle_collected)
  have "distinct (map ID collected)" unfolding collected_def by (rule history_loop_ids) simp_all
  then have s1: "sorted_wrt entry_less (sort_Slice entry_less collected)" by (rule sorted_sort_Slice)
  have s2: "sorted_wrt entry_less expected"
    using assms unfolding lifecycle_clock_def
    by (simp add: expected_def entry_less_iff scan_entry_def stored_row_def) linarith
  have "set (sort_Slice entry_less collected) = set expected" by (simp add: set_sort_Slice set)
  from sorted_entry_less_unique[OF s1 s2 this]
  have "sort_Slice entry_less collected = expected" .
  moreover have "GetHistoryForPath time_Parse \<lparr>db = Some rows\<rparr> ''b/a.md''
      = Inr (sort_Slice entry_less collected)"
    unfolding GetHistoryForPath_def seed_file collected_def by (simp del: history_loop.simps)
  ultimately show ?thesis unfolding rows_def expected_def by (simp del: history_loop.simps)
qed

section \<open>The history of a path\<close>

text \<open>
  Claim C4. \<^verbatim>\<open>GetHistoryForPath\<close> on an open database returns the entries its loop
  collected, ordered by recorded time descending and, among equal times, by id descending.
  After the lifecycle of the repository's test (create \<open>a.md\<close>, modify it, move it to
  \<open>b/a.md\<close>, delete it; one pass after each step, any order of the map loops, a clock that
  does not run backwards), the history of \<open>b/a.md\<close> is the four entries deleted, moved,
  modified, created, in this order.
\<close>

theorem GetHistoryForPath_newest_first:
  "(\<forall>rows. db s = Some rows \<longrightarrow>
      (\<exists>es. GetHistoryForPath time_Parse s path = Inr es \<and>
         sorted_wrt (\<lambda>a b. RecordedAt b < RecordedAt a \<or>
                        (RecordedAt a = RecordedAt b \<and> ID b < ID a)) es \<and>
         mset es = mset (history_loop time_Parse rows {} (seedHistoryPaths path) {} []))) \<and>
   (lifecycle_files dataDir c1 c2 fs1 fs2 fs3 fs4 \<and> hashBytes c1 \<noteq> hashBytes c2 \<and>
    lifecycle_orders o1 \<and> lifecycle_orders o2 \<and> lifecycle_orders o3 \<and> lifecycle_orders o4 \<and>
    lifecycle_clock time_Parse clock \<longrightarrow>
      (\<exists>s4 es. captures clock hashBytes dataDir [(fs1, o1), (fs2, o2), (fs3, o3), (fs4, o4)]
                  \<lparr>db = Some []\<rparr> = Inr s4 \<and>
         GetHistoryForPath time_Parse s4 ''b/a.md'' = Inr es \<and>
         map (\<lambda>e. (ID e, Path e, Status e, PreviousPath e)) es
           = [(4, ''b/a.md'', FileStatusDeleted, None),
              (3, ''b/a.md'', FileStatusMoved, Some ''a.md''),
              (2, ''a.md'', FileStatusModified, None),
              (1, ''a.md'', FileStatusCreated, None)]))"
proof (intro conjI allI impI)
  fix rows assume "db s = Some rows"
  from GetHistoryForPath_sorted_general[OF this, of time_Parse path] obtain es where
    es: "GetHistoryForPath time_Parse s path = Inr es" "sorted_wrt entry_less es"
      "mset es = mset (history_loop time_Parse rows {} (seedHistoryPaths path) {} [])" by blast
  have "entry_less = (\<lambda>a b. RecordedAt b < RecordedAt a \<or>
                        (RecordedAt a = RecordedAt b \<and> ID b < ID a))"
    by (intro ext) (rule entry_less_iff)
  with es show "\<exists>es. GetHistoryForPath time_Parse s path = Inr es \<and>
         sorted_wrt (\<lambda>a b. RecordedAt b < RecordedAt a \<or>
                        (RecordedAt a = RecordedAt b \<and> ID b < ID a)) es \<and>
         mset es = mset (history_loop time_Parse rows {} (seedHistoryPaths path) {} [])"
    by auto
next
  assume a: "lifecycle_files dataDir c1 c2 fs1 fs2 fs3 fs4 \<and> hashBytes c1 \<noteq> hashBytes c2 \<and>
    lifecycle_orders o1 \<and> lifecycle_orders o2 \<and> lifecycle_orders o3 \<and> lifecycle_orders o4 \<and>
    lifecycle_clock time_Parse clock"
  then have t: "captures clock hashBytes dataDir [(fs1, o1), (fs2, o2), (fs3, o3), (fs4, o4)]
                  \<lparr>db = Some []\<rparr>
      = Inr \<lparr>db = Some [stored_row clock hashBytes 1 ''a.md'' c1 FileStatusCreated None,
                      stored_row clock hashBytes 2 ''a.md'' c2 FileStatusModified None,
                      stored_row clock hashBytes 3 ''b/a.md'' c2 FileStatusMoved (Some ''a.md''),
                      stored_row clock hashBytes 4 ''b/a.md'' c2 FileStatusDeleted None]\<rparr>"
    by (intro lifecycle_table) simp_all
  from a have "lifecycle_clock time_Parse clock" by simp
  note h = lifecycle_history[OF this, of hashBytes c1 c2]
  show "\<exists>s4 es. captures clock hashBytes dataDir [(fs1, o1), (fs2, o2), (fs3, o3), (fs4, o4)]
                  \<lparr>db = Some []\<rparr> = Inr s4 \<and>
         GetHistoryForPath time_Parse s4 ''b/a.md'' = Inr es \<and>
         map (\<lambda>e. (ID e, Path e, Status e, PreviousPath e)) es
           = [(4, ''b/a.md'', FileStatusDeleted, None),
              (3, ''b/a.md'', FileStatusMoved, Some ''a.md''),
              (2, ''a.md'', FileStatusModified, None),
              (1, ''a.md'', FileStatusCreated, None)]"
    by (intro exI conjI, rule t, rule h) (simp add: scan_entry_def stored_row_def)
qed

theorem GetHistoryForPath_newest_first_witness:
  "lifecycle_files ''/data'' ''one'' ''two''
      (example_fs [(''a.md'', FsFile (Inr ''one''))])
      (example_fs [(''a.md'', FsFile (Inr ''two''))])
      (example_fs [(''b'', FsDir [(''a.md'', FsFile (Inr ''two''))] None)])
      (example_fs [(''b'', FsDir [] None)]) \<and>
   example_hash ''one'' \<noteq> example_hash ''two'' \<and>
   lifecycle_orders (example_orders [''b/a.md'', ''a.md'']) \<and>
   lifecycle_clock example_time_Parse example_clock \<and>
   (\<exists>s4 es. captures example_clock example_hash ''/data''
        [(example_fs [(''a.md'', FsFile (Inr ''one''))], example_orders [''b/a.md'', ''a.md'']),
         (example_fs [(''a.md'', FsFile (Inr ''two''))], example_orders [''b/a.md'', ''a.md'']),
         (example_fs [(''b'', FsDir [(''a.md'', FsFile (Inr ''two''))] None)],
          example_orders [''b/a.md'', ''a.md'']),
         (example_fs [(''b'', FsDir [] None)], example_orders [''b/a.md'', ''a.md''])]
        \<lparr>db = Some []\<rparr> = Inr s4 \<and>
      GetHistoryForPath example_time_Parse s4 ''b/a.md'' = Inr es \<and>
      map (\<lambda>e. (ID e, Path e, Status e, PreviousPath e)) es
        = [(4, ''b/a.md'', FileStatusDeleted, None),
           (3, ''b/a.md'', FileStatusMoved, Some ''a.md''),
           (2, ''a.md'', FileStatusModified, None),
           (1, ''a.md'', FileStatusCreated, None)])"
proof -
  have h1: "lifecycle_files ''/data'' ''one'' ''two''
      (example_fs [(''a.md'', FsFile (Inr ''one''))])
      (example_fs [(''a.md'', FsFile (Inr ''two''))])
      (example_fs [(''b'', FsDir [(''a.md'', FsFile (Inr ''two''))] None)])
      (example_fs [(''b'', FsDir [] None)])"
    by (simp add: lifecycle_files_def example_fs_def)
  have h2: "example_hash ''one'' \<noteq> example_hash ''two''" by (simp add: example_hash_def)
  have h3: "lifecycle_orders (example_orders [''b/a.md'', ''a.md''])"
    by (simp add: lifecycle_orders_def lifecycle_order_def example_orders_def)
  have h4: "lifecycle_clock example_time_Parse example_clock"
    by (simp add: lifecycle_clock_def example_clock_def)
  from GetHistoryForPath_newest_first[where time_Parse = example_time_Parse
      and clock = example_clock and hashBytes = example_hash and dataDir = "''/data''"
      and ?c1.0 = "''one''" and ?c2.0 = "''two''"
      and ?fs1.0 = "example_fs [(''a.md'', FsFile (Inr ''one''))]"
      and ?fs2.0 = "example_fs [(''a.md'', FsFile (Inr ''two''))]"
      and ?fs3.0 = "example_fs [(''b'', FsDir [(''a.md'', FsFile (Inr ''two''))] None)]"
      and ?fs4.0 = "example_fs [(''b'', FsDir [] None)]"
      and ?o1.0 = "example_orders [''b/a.md'', ''a.md'']"
      and ?o2.0 = "example_orders [''b/a.md'', ''a.md'']"
      and ?o3.0 = "example_orders [''b/a.md'', ''a.md'']"
      and ?o4.0 = "example_orders [''b/a.md'', ''a.md'']", THEN conjunct2] h1 h2 h3 h4
  show ?thesis by simp
qed

section \<open>Paths without history among the seeds\<close>








section \<open>Trimming white space\<close>












section \<open>What the loop collects\<close>










section \<open>Queries by route\<close>




section \<open>Running a pass twice\<close>

text \<open>
  Claim C2 does not hold of the code. The table is the one the lifecycle leaves after the
  move (\<open>a.md\<close> created, modified, moved to \<open>b/a.md\<close>); the data directory holds the empty
  directory \<open>b\<close>. The first pass records \<open>b/a.md\<close> as deleted. The second pass, with nothing
  changed on disk, appends a row: \<open>a.md\<close>, the source of the move, is no longer a previous
  path of a latest entry, so it is no alias path any more and is recorded as deleted.
\<close>

theorem second_pass_appends_deleted_row:
  "CaptureFileHistory example_clock example_hash (example_fs [(''b'', FsDir [] None)])
      (example_orders [''a.md'', ''b/a.md''])
      \<lparr>db = Some [example_row 1 ''a.md'' ''one'' FileStatusCreated None,
                  example_row 2 ''a.md'' ''two'' FileStatusModified None,
                  example_row 3 ''b/a.md'' ''two'' FileStatusMoved (Some ''a.md'')]\<rparr> ''/data''
     = Inr \<lparr>db = Some [example_row 1 ''a.md'' ''one'' FileStatusCreated None,
                       example_row 2 ''a.md'' ''two'' FileStatusModified None,
                       example_row 3 ''b/a.md'' ''two'' FileStatusMoved (Some ''a.md''),
                       example_row 4 ''b/a.md'' ''two'' FileStatusDeleted None]\<rparr> \<and>
   CaptureFileHistory example_clock example_hash (example_fs [(''b'', FsDir [] None)])
      (example_orders [''a.md'', ''b/a.md''])
      \<lparr>db = Some [example_row 1 ''a.md'' ''one'' FileStatusCreated None,
                  example_row 2 ''a.md'' ''two'' FileStatusModified None,
                  example_row 3 ''b/a.md'' ''two'' FileStatusMoved (Some ''a.md''),
                  example_row 4 ''b/a.md'' ''two'' FileStatusDeleted None]\<rparr> ''/data''
     = Inr \<lparr>db = Some [example_row 1 ''a.md'' ''one'' FileStatusCreated None,
                       example_row 2 ''a.md'' ''two'' FileStatusModified None,
                       example_row 3 ''b/a.md'' ''two'' FileStatusMoved (Some ''a.md''),
                       example_row 4 ''b/a.md'' ''two'' FileStatusDeleted None,
                       example_row 5 ''a.md'' ''two'' FileStatusDeleted None]\<rparr>"
  by (simp add: eval_defs)

end
